theory Spec2Isabelle
  imports Main
begin

section \<open>Raw report model\<close>

text \<open>
  The raw records of \<^verbatim>\<open>fileparse\<close> that \<^verbatim>\<open>context.ts\<close> reads. An optional string
  field (\<^verbatim>\<open>code?: string | null\<close>, \<^verbatim>\<open>parent_profile?: string | null\<close>) keeps the three
  shapes JavaScript distinguishes. A \<^typ>\<open>string\<close> stands for a JavaScript string whose code
  units are below 256.
\<close>

datatype js_string = Undefined | Null | Str string

datatype Result = Result (status: string)

record Control =
  ctrl_id :: string
  ctrl_code :: js_string
  ctrl_results :: "Result list"

record Profile =
  name :: string
  parent_profile :: js_string
  controls :: "Control list"

record Evaluation =
  profiles :: "Profile list"

text \<open>JavaScript truthiness of an optional string: \<^verbatim>\<open>undefined\<close>, \<^verbatim>\<open>null\<close> and \<^verbatim>\<open>''\<close> are falsy.\<close>

fun truthy :: "js_string \<Rightarrow> bool" where
  "truthy Undefined = False"
| "truthy Null = False"
| "truthy (Str s) = (s \<noteq> [])"

text \<open>What a template literal renders for \<^verbatim>\<open>${v}\<close>.\<close>

fun to_string :: "js_string \<Rightarrow> string" where
  "to_string Undefined = ''undefined''"
| "to_string Null = ''null''"
| "to_string (Str s) = s"

text \<open>
  \<^verbatim>\<open>String.prototype.trim\<close>: white space and line terminators are removed from both ends.
  Among the code units below 256 these are TAB, LF, VT, FF, CR, SP and NBSP.
\<close>

definition is_white_space :: "char \<Rightarrow> bool" where
  "is_white_space c = (of_char c \<in> {9, 10, 11, 12, 13, 32, 160 :: nat})"

definition trim :: "string \<Rightarrow> string" where
  "trim s = rev (dropWhile is_white_space (rev (dropWhile is_white_space s)))"

text \<open>
  Modelled from the spec: \<^verbatim>\<open>hdfWrapControl\<close> of \<^verbatim>\<open>compat_wrappers\<close> is missing; the
  linker only asks whether \<^verbatim>\<open>hdf.segments\<close> is present and non-empty, which the spec
  describes as the control's result list being non-empty.
\<close>

definition segments_populated :: "Control \<Rightarrow> bool" where
  "segments_populated c = (ctrl_results c \<noteq> [])"

section \<open>Wrapper objects in a heap\<close>

text \<open>
  The wrappers refer to each other and their link lists are mutated in place, so the
  profile and control wrappers live in a heap: a reference is the position of an object in
  its arena, and \<^verbatim>\<open>Object.is\<close> is equality of references. The one evaluation wrapper
  is the value \<^verbatim>\<open>eval_context\<close> that \<^verbatim>\<open>contextualizeEvaluation\<close> returns.
\<close>

datatype eval_ref = TheEvaluation

record ContextualizedControl =
  c_data :: Control
  c_sourced_from :: nat
  c_extended_by :: "nat list"
  c_extends_from :: "nat list"

record ContextualizedProfile =
  p_data :: Profile
  p_sourced_from :: "eval_ref option"
  p_extended_by :: "nat list"
  p_extends_from :: "nat list"
  p_contains :: "nat list"

record ContextualizedEvaluation =
  e_data :: Evaluation
  e_contains :: "nat list"

record heap =
  profile_objs :: "ContextualizedProfile list"
  control_objs :: "ContextualizedControl list"

abbreviation pobj :: "heap \<Rightarrow> nat \<Rightarrow> ContextualizedProfile" where
  "pobj h p \<equiv> profile_objs h ! p"

abbreviation cobj :: "heap \<Rightarrow> nat \<Rightarrow> ContextualizedControl" where
  "cobj h c \<equiv> control_objs h ! c"

datatype error = TypeError

subsection \<open>Pushing onto a link list of an object\<close>

definition push_p_extends_from :: "nat \<Rightarrow> nat \<Rightarrow> heap \<Rightarrow> heap" where
  "push_p_extends_from p v h =
     h\<lparr>profile_objs := (profile_objs h)
          [p := (pobj h p)\<lparr>p_extends_from := p_extends_from (pobj h p) @ [v]\<rparr>]\<rparr>"

definition push_p_extended_by :: "nat \<Rightarrow> nat \<Rightarrow> heap \<Rightarrow> heap" where
  "push_p_extended_by p v h =
     h\<lparr>profile_objs := (profile_objs h)
          [p := (pobj h p)\<lparr>p_extended_by := p_extended_by (pobj h p) @ [v]\<rparr>]\<rparr>"

definition push_c_extends_from :: "nat \<Rightarrow> nat \<Rightarrow> heap \<Rightarrow> heap" where
  "push_c_extends_from c v h =
     h\<lparr>control_objs := (control_objs h)
          [c := (cobj h c)\<lparr>c_extends_from := c_extends_from (cobj h c) @ [v]\<rparr>]\<rparr>"

definition push_c_extended_by :: "nat \<Rightarrow> nat \<Rightarrow> heap \<Rightarrow> heap" where
  "push_c_extended_by c v h =
     h\<lparr>control_objs := (control_objs h)
          [c := (cobj h c)\<lparr>c_extended_by := c_extended_by (cobj h c) @ [v]\<rparr>]\<rparr>"

section \<open>Derived views of a control\<close>

text \<open>
  \<^verbatim>\<open>get root\<close>: the loop follows \<^verbatim>\<open>extends_from[0]\<close> for as long as the list is
  non-empty. On a cyclic graph it never returns, which is the value \<^const>\<open>None\<close>.
\<close>

partial_function (option) root :: "heap \<Rightarrow> nat \<Rightarrow> nat option" where
  "root h cur =
     (case c_extends_from (cobj h cur) of
        [] \<Rightarrow> Some cur
      | a # _ \<Rightarrow> root h a)"

declare root.simps [code]

text \<open>The same loop with a bound on the number of iterations.\<close>

fun root_within :: "nat \<Rightarrow> heap \<Rightarrow> nat \<Rightarrow> nat option" where
  "root_within k h cur =
     (case c_extends_from (cobj h cur) of
        [] \<Rightarrow> Some cur
      | a # _ \<Rightarrow> (case k of 0 \<Rightarrow> None | Suc k' \<Rightarrow> root_within k' h a))"

text \<open>
  The specification's words for the first two tests of \<^verbatim>\<open>is_redundant\<close>: the raw code is
  absent or blank, that is, empty after trimming.
\<close>

definition blank :: "js_string \<Rightarrow> bool" where
  "blank code = (\<not> truthy code \<or> trim (to_string code) = [])"

definition is_redundant :: "heap \<Rightarrow> nat \<Rightarrow> bool option" where
  "is_redundant h this =
     (if \<not> truthy (ctrl_code (c_data (cobj h this))) then Some True
      else if trim (to_string (ctrl_code (c_data (cobj h this)))) = [] then Some True
      else if c_extends_from (cobj h this) = [] then Some False
      else (case root h this of
              None \<Rightarrow> None
            | Some r \<Rightarrow> Some (ctrl_code (c_data (cobj h this)) = ctrl_code (c_data (cobj h r)))))"

definition banner :: "string \<Rightarrow> string" where
  "banner profile_name =
     replicate 57 CHR ''='' @ [CHR 0x0A] @
     ''# Profile name: '' @ profile_name @ [CHR 0x0A] @
     replicate 57 CHR ''='' @ [CHR 0x0A] @
     [CHR 0x0A]"

definition own_code :: "heap \<Rightarrow> nat \<Rightarrow> string" where
  "own_code h this =
     banner (name (p_data (pobj h (c_sourced_from (cobj h this))))) @
     to_string (ctrl_code (c_data (cobj h this)))"

text \<open>
  \<^verbatim>\<open>get full_code\<close>; the recursion through the ancestor does not return on a cyclic graph.
\<close>

partial_function (option) full_code :: "heap \<Rightarrow> nat \<Rightarrow> string option" where
  "full_code h this =
     (case c_extends_from (cobj h this) of
        [] \<Rightarrow> Some (trim (own_code h this))
      | ancestor # _ \<Rightarrow>
          (case is_redundant h this of
             None \<Rightarrow> None
           | Some redundant \<Rightarrow>
               if redundant then full_code h ancestor
               else Option.bind (full_code h ancestor)
                      (\<lambda>anc_code.
                         Some (trim (own_code h this @ [CHR 0x0A, CHR 0x0A] @ anc_code)))))"

declare full_code.simps [code]

text \<open>
  Reading \<^verbatim>\<open>cc.extends_from[0].full_code\<close> from outside: on an empty list
  \<^verbatim>\<open>extends_from[0]\<close> is \<^verbatim>\<open>undefined\<close> and the property access throws.
\<close>

definition first_ancestor_full_code :: "heap \<Rightarrow> nat \<Rightarrow> error + string option" where
  "first_ancestor_full_code h cc =
     (case c_extends_from (cobj h cc) of
        [] \<Rightarrow> Inl TypeError
      | a # _ \<Rightarrow> Inr (full_code h a))"

section \<open>contextualizeEvaluation\<close>

definition empty_heap :: heap where
  "empty_heap = \<lparr>profile_objs = [], control_objs = []\<rparr>"

text \<open>First loop: a wrapper with empty link lists for every profile, in source order.\<close>

definition new_profile_context :: "Profile \<Rightarrow> eval_ref option \<Rightarrow> ContextualizedProfile" where
  "new_profile_context profile src =
     \<lparr>p_data = profile, p_sourced_from = src, p_extended_by = [], p_extends_from = [],
      p_contains = []\<rparr>"

fun wrap_profiles ::
  "Profile list \<Rightarrow> ContextualizedEvaluation \<Rightarrow> heap \<Rightarrow> ContextualizedEvaluation \<times> heap" where
  "wrap_profiles [] eval_context h = (eval_context, h)"
| "wrap_profiles (profile # rest) eval_context h =
     wrap_profiles rest
       (eval_context\<lparr>e_contains := e_contains eval_context @ [length (profile_objs h)]\<rparr>)
       (h\<lparr>profile_objs :=
            profile_objs h @ [new_profile_context profile (Some TheEvaluation)]\<rparr>)"

text \<open>
  Second loop: a profile whose \<^verbatim>\<open>parent_profile\<close> is not \<^verbatim>\<open>undefined\<close> looks the name up
  among the wrapped profiles; the profile found gets this one in its \<^verbatim>\<open>extends_from\<close>.
\<close>

definition link_profile :: "nat list \<Rightarrow> nat \<Rightarrow> heap \<Rightarrow> heap" where
  "link_profile contains profile h =
     (if parent_profile (p_data (pobj h profile)) \<noteq> Undefined then
        (case List.find
                (\<lambda>p. Str (name (p_data (pobj h p))) = parent_profile (p_data (pobj h profile)))
                contains of
           None \<Rightarrow> h
         | Some parent \<Rightarrow>
             push_p_extended_by profile parent (push_p_extends_from parent profile h))
      else h)"

fun link_profiles :: "nat list \<Rightarrow> nat list \<Rightarrow> heap \<Rightarrow> heap" where
  "link_profiles contains [] h = h"
| "link_profiles contains (profile # rest) h =
     link_profiles contains rest (link_profile contains profile h)"

text \<open>Third loop: wrap the controls of every profile and collect them in \<^verbatim>\<open>all_controls\<close>.\<close>

definition new_control :: "nat \<Rightarrow> Control \<Rightarrow> ContextualizedControl" where
  "new_control profile c =
     \<lparr>c_data = c, c_sourced_from = profile, c_extended_by = [], c_extends_from = []\<rparr>"

definition wrap_controls_of :: "nat \<Rightarrow> nat list \<Rightarrow> heap \<Rightarrow> nat list \<times> heap" where
  "wrap_controls_of profile all_controls h =
     (let p_controls = controls (p_data (pobj h profile));
          refs = [length (control_objs h) ..< length (control_objs h) + length p_controls];
          h1 = h\<lparr>control_objs := control_objs h @ map (new_control profile) p_controls\<rparr>;
          h2 = h1\<lparr>profile_objs :=
                   (profile_objs h1)[profile := (pobj h1 profile)\<lparr>p_contains := refs\<rparr>]\<rparr>
      in (all_controls @ refs, h2))"

fun wrap_controls :: "nat list \<Rightarrow> nat list \<Rightarrow> heap \<Rightarrow> nat list \<times> heap" where
  "wrap_controls [] all_controls h = (all_controls, h)"
| "wrap_controls (profile # rest) all_controls h =
     (case wrap_controls_of profile all_controls h of
        (all_controls', h') \<Rightarrow> wrap_controls rest all_controls' h')"

text \<open>
  Fourth loop, first branch: the owning profile extends others. The extended profiles are
  searched in order for a control with the same id; the first one found is linked and the
  search stops.
\<close>

fun link_to_ancestor :: "nat list \<Rightarrow> nat \<Rightarrow> heap \<Rightarrow> heap" where
  "link_to_ancestor [] cc h = h"
| "link_to_ancestor (extended_profile # rest) cc h =
     (case List.find
             (\<lambda>c. ctrl_id (c_data (cobj h c)) = ctrl_id (c_data (cobj h cc)))
             (p_contains (pobj h extended_profile)) of
        Some ancestor \<Rightarrow> push_c_extends_from cc ancestor (push_c_extended_by ancestor cc h)
      | None \<Rightarrow> link_to_ancestor rest cc h)"

text \<open>
  Second branch: no profile dependency. The base is the first control with the same id that
  has segments, else the first with the same id; \<^verbatim>\<open>same_id[0]\<close> of an empty list is
  \<^verbatim>\<open>undefined\<close>, and pushing onto its \<^verbatim>\<open>extended_by\<close> would throw.
\<close>

definition find_base :: "nat list \<Rightarrow> nat \<Rightarrow> heap \<Rightarrow> nat option" where
  "find_base all_controls cc h =
     (let same_id =
            filter (\<lambda>c. ctrl_id (c_data (cobj h c)) = ctrl_id (c_data (cobj h cc))) all_controls
      in case List.find (\<lambda>c. segments_populated (c_data (cobj h c))) same_id of
           Some c \<Rightarrow> Some c
         | None \<Rightarrow> (case same_id of [] \<Rightarrow> None | c # _ \<Rightarrow> Some c))"

definition link_control :: "nat list \<Rightarrow> nat \<Rightarrow> heap \<Rightarrow> error + heap" where
  "link_control all_controls cc h =
     (if p_extends_from (pobj h (c_sourced_from (cobj h cc))) \<noteq> [] \<or>
         p_extended_by (pobj h (c_sourced_from (cobj h cc))) \<noteq> []
      then
        if p_extends_from (pobj h (c_sourced_from (cobj h cc))) = [] then Inr h
        else Inr (link_to_ancestor (p_extends_from (pobj h (c_sourced_from (cobj h cc)))) cc h)
      else
        (case find_base all_controls cc h of
           None \<Rightarrow> Inl TypeError
         | Some same_id_populated \<Rightarrow>
             if cc = same_id_populated then Inr h
             else Inr (push_c_extends_from cc same_id_populated
                         (push_c_extended_by same_id_populated cc h))))"

fun link_controls :: "nat list \<Rightarrow> nat list \<Rightarrow> heap \<Rightarrow> error + heap" where
  "link_controls all_controls [] h = Inr h"
| "link_controls all_controls (cc # rest) h =
     (case link_control all_controls cc h of
        Inl e \<Rightarrow> Inl e
      | Inr h' \<Rightarrow> link_controls all_controls rest h')"

definition contextualizeEvaluation ::
  "Evaluation \<Rightarrow> error + ContextualizedEvaluation \<times> heap" where
  "contextualizeEvaluation evaluation =
     (case wrap_profiles (profiles evaluation)
             \<lparr>e_data = evaluation, e_contains = []\<rparr> empty_heap of
        (eval_context, h1) \<Rightarrow>
          (case wrap_controls (e_contains eval_context) []
                  (link_profiles (e_contains eval_context) (e_contains eval_context) h1) of
             (all_controls, h3) \<Rightarrow>
               (case link_controls all_controls all_controls h3 of
                  Inl e \<Rightarrow> Inl e
                | Inr h4 \<Rightarrow> Inr (eval_context, h4))))"

section \<open>contextualizeProfile\<close>

text \<open>
  A stand-alone profile: one profile wrapper with no evaluation, its controls wrapped one
  by one, and no linking. The result is the reference of the profile wrapper and the heap.
\<close>

fun add_controls :: "Control list \<Rightarrow> nat \<Rightarrow> heap \<Rightarrow> heap" where
  "add_controls [] profile_context h = h"
| "add_controls (c # rest) profile_context h =
     add_controls rest profile_context
       (h\<lparr>control_objs := control_objs h @ [new_control profile_context c],
          profile_objs := (profile_objs h)
            [profile_context := (pobj h profile_context)
               \<lparr>p_contains := p_contains (pobj h profile_context) @ [length (control_objs h)]\<rparr>]\<rparr>)"

definition contextualizeProfile :: "Profile \<Rightarrow> nat \<times> heap" where
  "contextualizeProfile profile =
     (0, add_controls (controls profile) 0
           \<lparr>profile_objs = [new_profile_context profile None], control_objs = []\<rparr>)"

section \<open>What the linking loops decide\<close>

text \<open>
  The decisions of the linking loops read only the parts of the heap that linking never
  writes. The functions below name these decisions, so that the final link lists can be
  stated in closed form; the predicates describe what each loop leaves unchanged.
\<close>

definition same_frame :: "heap \<Rightarrow> heap \<Rightarrow> bool" where
  "same_frame h h' =
     (profile_objs h' = profile_objs h \<and>
      length (control_objs h') = length (control_objs h) \<and>
      (\<forall>c. c_data (cobj h' c) = c_data (cobj h c)) \<and>
      (\<forall>c. c_sourced_from (cobj h' c) = c_sourced_from (cobj h c)))"

fun first_match :: "nat list \<Rightarrow> nat \<Rightarrow> heap \<Rightarrow> nat option" where
  "first_match [] cc h = None"
| "first_match (extended_profile # rest) cc h =
     (case List.find
             (\<lambda>c. ctrl_id (c_data (cobj h c)) = ctrl_id (c_data (cobj h cc)))
             (p_contains (pobj h extended_profile)) of
        Some ancestor \<Rightarrow> Some ancestor
      | None \<Rightarrow> first_match rest cc h)"

definition chosen :: "nat list \<Rightarrow> nat \<Rightarrow> heap \<Rightarrow> nat option" where
  "chosen all_controls cc h =
     (if p_extends_from (pobj h (c_sourced_from (cobj h cc))) \<noteq> [] \<or>
         p_extended_by (pobj h (c_sourced_from (cobj h cc))) \<noteq> []
      then first_match (p_extends_from (pobj h (c_sourced_from (cobj h cc)))) cc h
      else (case find_base all_controls cc h of
              None \<Rightarrow> None
            | Some b \<Rightarrow> if cc = b then None else Some b))"

fun opt_list :: "'a option \<Rightarrow> 'a list" where
  "opt_list None = []"
| "opt_list (Some x) = [x]"

definition find_parent :: "nat list \<Rightarrow> nat \<Rightarrow> heap \<Rightarrow> nat option" where
  "find_parent contains profile h =
     (if parent_profile (p_data (pobj h profile)) \<noteq> Undefined then
        List.find
          (\<lambda>p. Str (name (p_data (pobj h p))) = parent_profile (p_data (pobj h profile)))
          contains
      else None)"

definition same_pframe :: "heap \<Rightarrow> heap \<Rightarrow> bool" where
  "same_pframe h h' =
     (control_objs h' = control_objs h \<and>
      length (profile_objs h') = length (profile_objs h) \<and>
      (\<forall>p. p_data (pobj h' p) = p_data (pobj h p)) \<and>
      (\<forall>p. p_sourced_from (pobj h' p) = p_sourced_from (pobj h p)) \<and>
      (\<forall>p. p_contains (pobj h' p) = p_contains (pobj h p)))"

definition owned :: "heap \<Rightarrow> bool" where
  "owned h =
     ((\<forall>p<length (profile_objs h). \<forall>c\<in>set (p_contains (pobj h p)).
         c < length (control_objs h) \<and> c_sourced_from (cobj h c) = p) \<and>
      (\<forall>c<length (control_objs h). c_sourced_from (cobj h c) < length (profile_objs h)))"

definition unlinked :: "heap \<Rightarrow> bool" where
  "unlinked h =
     (\<forall>c<length (control_objs h).
        c_extends_from (cobj h c) = [] \<and> c_extended_by (cobj h c) = [])"

definition same_links :: "heap \<Rightarrow> heap \<Rightarrow> bool" where
  "same_links h h' =
     (length (profile_objs h') = length (profile_objs h) \<and>
      (\<forall>p. p_data (pobj h' p) = p_data (pobj h p)) \<and>
      (\<forall>p. p_sourced_from (pobj h' p) = p_sourced_from (pobj h p)) \<and>
      (\<forall>p. p_extends_from (pobj h' p) = p_extends_from (pobj h p)) \<and>
      (\<forall>p. p_extended_by (pobj h' p) = p_extended_by (pobj h p)))"

definition declared_parent :: "Evaluation \<Rightarrow> nat \<Rightarrow> nat option" where
  "declared_parent ev i =
     (if parent_profile (profiles ev ! i) \<noteq> Undefined then
        List.find (\<lambda>j. Str (name (profiles ev ! j)) = parent_profile (profiles ev ! i))
          [0..<length (profiles ev)]
      else None)"

section \<open>Parent cycles and the chains of first ancestors\<close>

text \<open>
  \<open>parent_depth k ev i\<close> follows the resolved \<^verbatim>\<open>parent_profile\<close> declarations upwards from
  profile \<open>i\<close> and counts the steps to a profile without a resolved parent; it gives up
  after \<open>k\<close> steps. An evaluation has no parent cycle when every profile reaches such a
  profile within as many steps as there are profiles. \<open>first_ancestor\<close> is the relation
  that \<^verbatim>\<open>root\<close> follows, \<open>edged\<close> says that a profile takes the first branch of the control
  loop, and \<open>link_rank\<close> is a measure that decreases along \<open>first_ancestor\<close>.
\<close>

fun parent_depth :: "nat \<Rightarrow> Evaluation \<Rightarrow> nat \<Rightarrow> nat option" where
  "parent_depth k ev i =
     (case declared_parent ev i of
        None \<Rightarrow> Some 0
      | Some j \<Rightarrow> (case k of 0 \<Rightarrow> None | Suc k' \<Rightarrow> map_option Suc (parent_depth k' ev j)))"

definition no_parent_cycle :: "Evaluation \<Rightarrow> bool" where
  "no_parent_cycle ev =
     list_all (\<lambda>i. parent_depth (length (profiles ev)) ev i \<noteq> None) [0..<length (profiles ev)]"

definition first_ancestor :: "heap \<Rightarrow> (nat \<times> nat) set" where
  "first_ancestor h =
     {(c, a). c < length (control_objs h) \<and> (\<exists>rest. c_extends_from (cobj h c) = a # rest)}"

definition edged :: "heap \<Rightarrow> nat \<Rightarrow> bool" where
  "edged h p = (p_extends_from (pobj h p) \<noteq> [] \<or> p_extended_by (pobj h p) \<noteq> [])"

definition link_rank :: "Evaluation \<Rightarrow> heap \<Rightarrow> nat \<Rightarrow> nat" where
  "link_rank ev h c =
     (if edged h (c_sourced_from (cobj h c)) then
        length (profiles ev) -
          (case parent_depth (length (profiles ev)) ev (c_sourced_from (cobj h c)) of
             None \<Rightarrow> 0 | Some d \<Rightarrow> d)
      else if c_extends_from (cobj h c) = [] then 0
      else Suc (length (profiles ev)))"

section \<open>Example evaluations\<close>

text \<open>
  The overlay scenario of the specification: profile \<open>A\<close> declares no parent, profile
  \<open>B\<close> declares \<open>A\<close> as its parent; both have a control \<open>c1\<close>.
\<close>

definition ev_overlay :: Evaluation where
  "ev_overlay = \<lparr>profiles =
     [\<lparr>name = ''A'', parent_profile = Undefined,
       controls = [\<lparr>ctrl_id = ''c1'', ctrl_code = Str ''show cmd'', ctrl_results = []\<rparr>]\<rparr>,
      \<lparr>name = ''B'', parent_profile = Str ''A'',
       controls = [\<lparr>ctrl_id = ''c1'', ctrl_code = Str [], ctrl_results = []\<rparr>]\<rparr>]\<rparr>"

definition heap_overlay :: heap where
  "heap_overlay =
     \<lparr>profile_objs =
        [\<lparr>p_data = profiles ev_overlay ! 0, p_sourced_from = Some TheEvaluation,
          p_extended_by = [], p_extends_from = [1], p_contains = [0]\<rparr>,
         \<lparr>p_data = profiles ev_overlay ! 1, p_sourced_from = Some TheEvaluation,
          p_extended_by = [0], p_extends_from = [], p_contains = [1]\<rparr>],
      control_objs =
        [\<lparr>c_data = \<lparr>ctrl_id = ''c1'', ctrl_code = Str ''show cmd'', ctrl_results = []\<rparr>,
          c_sourced_from = 0, c_extended_by = [], c_extends_from = [1]\<rparr>,
         \<lparr>c_data = \<lparr>ctrl_id = ''c1'', ctrl_code = Str [], ctrl_results = []\<rparr>,
          c_sourced_from = 1, c_extended_by = [0], c_extends_from = []\<rparr>]\<rparr>"

text \<open>
  A wrapper \<open>W\<close> named as parent by \<open>A\<close> and \<open>B\<close>; \<open>W\<close> itself names a parent that
  is not in the evaluation, and its control \<open>y\<close> has no counterpart.
\<close>

definition ev_wrapper :: Evaluation where
  "ev_wrapper = \<lparr>profiles =
     [\<lparr>name = ''W'', parent_profile = Str ''Missing'',
       controls = [\<lparr>ctrl_id = ''x'', ctrl_code = Str ''describe x'', ctrl_results = []\<rparr>,
                   \<lparr>ctrl_id = ''y'', ctrl_code = Str ''describe y'', ctrl_results = []\<rparr>]\<rparr>,
      \<lparr>name = ''A'', parent_profile = Str ''W'',
       controls = [\<lparr>ctrl_id = ''x'', ctrl_code = Str ''describe x'', ctrl_results = []\<rparr>]\<rparr>,
      \<lparr>name = ''B'', parent_profile = Str ''W'',
       controls = [\<lparr>ctrl_id = ''x'', ctrl_code = Str ''other'', ctrl_results = []\<rparr>]\<rparr>]\<rparr>"

definition heap_wrapper :: heap where
  "heap_wrapper =
     \<lparr>profile_objs =
        [\<lparr>p_data = profiles ev_wrapper ! 0, p_sourced_from = Some TheEvaluation,
          p_extended_by = [], p_extends_from = [1, 2], p_contains = [0, 1]\<rparr>,
         \<lparr>p_data = profiles ev_wrapper ! 1, p_sourced_from = Some TheEvaluation,
          p_extended_by = [0], p_extends_from = [], p_contains = [2]\<rparr>,
         \<lparr>p_data = profiles ev_wrapper ! 2, p_sourced_from = Some TheEvaluation,
          p_extended_by = [0], p_extends_from = [], p_contains = [3]\<rparr>],
      control_objs =
        [\<lparr>c_data = \<lparr>ctrl_id = ''x'', ctrl_code = Str ''describe x'', ctrl_results = []\<rparr>,
          c_sourced_from = 0, c_extended_by = [], c_extends_from = [2]\<rparr>,
         \<lparr>c_data = \<lparr>ctrl_id = ''y'', ctrl_code = Str ''describe y'', ctrl_results = []\<rparr>,
          c_sourced_from = 0, c_extended_by = [], c_extends_from = []\<rparr>,
         \<lparr>c_data = \<lparr>ctrl_id = ''x'', ctrl_code = Str ''describe x'', ctrl_results = []\<rparr>,
          c_sourced_from = 1, c_extended_by = [0], c_extends_from = []\<rparr>,
         \<lparr>c_data = \<lparr>ctrl_id = ''x'', ctrl_code = Str ''other'', ctrl_results = []\<rparr>,
          c_sourced_from = 2, c_extended_by = [], c_extends_from = []\<rparr>]\<rparr>"

text \<open>A profile that names itself as its parent.\<close>

definition ev_selfparent :: Evaluation where
  "ev_selfparent = \<lparr>profiles =
     [\<lparr>name = ''A'', parent_profile = Str ''A'',
       controls = [\<lparr>ctrl_id = ''x'', ctrl_code = Str ''describe x'', ctrl_results = []\<rparr>]\<rparr>]\<rparr>"

definition heap_selfparent :: heap where
  "heap_selfparent =
     \<lparr>profile_objs =
        [\<lparr>p_data = profiles ev_selfparent ! 0, p_sourced_from = Some TheEvaluation,
          p_extended_by = [0], p_extends_from = [0], p_contains = [0]\<rparr>],
      control_objs =
        [\<lparr>c_data = \<lparr>ctrl_id = ''x'', ctrl_code = Str ''describe x'', ctrl_results = []\<rparr>,
          c_sourced_from = 0, c_extended_by = [0], c_extends_from = [0]\<rparr>]\<rparr>"

text \<open>One profile without a parent, whose only control has empty code.\<close>

definition ev_blank_root :: Evaluation where
  "ev_blank_root = \<lparr>profiles =
     [\<lparr>name = ''P'', parent_profile = Undefined,
       controls = [\<lparr>ctrl_id = ''x'', ctrl_code = Str [], ctrl_results = []\<rparr>]\<rparr>]\<rparr>"

definition heap_blank_root :: heap where
  "heap_blank_root =
     \<lparr>profile_objs =
        [\<lparr>p_data = profiles ev_blank_root ! 0, p_sourced_from = Some TheEvaluation,
          p_extended_by = [], p_extends_from = [], p_contains = [0]\<rparr>],
      control_objs =
        [\<lparr>c_data = \<lparr>ctrl_id = ''x'', ctrl_code = Str [], ctrl_results = []\<rparr>,
          c_sourced_from = 0, c_extended_by = [], c_extends_from = []\<rparr>]\<rparr>"

text \<open>A stand-alone profile in which two controls share an id.\<close>

definition profile_dup :: Profile where
  "profile_dup =
     \<lparr>name = ''Q'', parent_profile = Str ''Q'',
      controls = [\<lparr>ctrl_id = ''x'', ctrl_code = Str ''one'', ctrl_results = []\<rparr>,
                  \<lparr>ctrl_id = ''x'', ctrl_code = Str ''two'', ctrl_results = [Result ''passed'']\<rparr>]\<rparr>"

definition heap_dup :: heap where
  "heap_dup =
     \<lparr>profile_objs =
        [\<lparr>p_data = profile_dup, p_sourced_from = None, p_extended_by = [],
          p_extends_from = [], p_contains = [0, 1]\<rparr>],
      control_objs =
        [\<lparr>c_data = \<lparr>ctrl_id = ''x'', ctrl_code = Str ''one'', ctrl_results = []\<rparr>,
          c_sourced_from = 0, c_extended_by = [], c_extends_from = []\<rparr>,
         \<lparr>c_data = \<lparr>ctrl_id = ''x'', ctrl_code = Str ''two'',
                    ctrl_results = [Result ''passed'']\<rparr>,
          c_sourced_from = 0, c_extended_by = [], c_extends_from = []\<rparr>]\<rparr>"

section \<open>The loops in closed form\<close>

lemma nth_upd_self:
  "(xs[i := f (xs ! i)]) ! j = (if j = i \<and> i < length xs then f (xs ! i) else xs ! j)"
  by (cases "i < length xs") (auto simp: nth_list_update list_update_beyond)

lemma push_c_extends_from_frame [simp]:
  "profile_objs (push_c_extends_from c v h) = profile_objs h"
  "length (control_objs (push_c_extends_from c v h)) = length (control_objs h)"
  "c_data (cobj (push_c_extends_from c v h) x) = c_data (cobj h x)"
  "c_sourced_from (cobj (push_c_extends_from c v h) x) = c_sourced_from (cobj h x)"
  "c_extended_by (cobj (push_c_extends_from c v h) x) = c_extended_by (cobj h x)"
  "c_extends_from (cobj (push_c_extends_from c v h) x) =
     c_extends_from (cobj h x) @ (if x = c \<and> c < length (control_objs h) then [v] else [])"
  by (simp_all add: push_c_extends_from_def nth_upd_self)

lemma push_c_extended_by_frame [simp]:
  "profile_objs (push_c_extended_by c v h) = profile_objs h"
  "length (control_objs (push_c_extended_by c v h)) = length (control_objs h)"
  "c_data (cobj (push_c_extended_by c v h) x) = c_data (cobj h x)"
  "c_sourced_from (cobj (push_c_extended_by c v h) x) = c_sourced_from (cobj h x)"
  "c_extends_from (cobj (push_c_extended_by c v h) x) = c_extends_from (cobj h x)"
  "c_extended_by (cobj (push_c_extended_by c v h) x) =
     c_extended_by (cobj h x) @ (if x = c \<and> c < length (control_objs h) then [v] else [])"
  by (simp_all add: push_c_extended_by_def nth_upd_self)

lemma same_frame_refl [simp]: "same_frame h h"
  by (simp add: same_frame_def)

lemma same_frame_trans: "same_frame h h' \<Longrightarrow> same_frame h' h'' \<Longrightarrow> same_frame h h''"
  by (simp add: same_frame_def)

lemma same_frame_push [simp]:
  "same_frame h (push_c_extends_from c v h)" "same_frame h (push_c_extended_by c v h)"
  by (simp_all add: same_frame_def)

lemma first_match_frame: "same_frame h h' \<Longrightarrow> first_match eps cc h' = first_match eps cc h"
  by (induction eps) (simp_all add: same_frame_def split: option.splits)

lemma find_base_frame: "same_frame h h' \<Longrightarrow> find_base all cc h' = find_base all cc h"
  by (simp add: find_base_def same_frame_def)

lemma chosen_frame: "same_frame h h' \<Longrightarrow> chosen all cc h' = chosen all cc h"
  using first_match_frame[of h h'] find_base_frame[of h h']
  by (simp add: chosen_def same_frame_def)

lemma link_to_ancestor_eq:
  "link_to_ancestor eps cc h =
     (case first_match eps cc h of
        None \<Rightarrow> h
      | Some a \<Rightarrow> push_c_extends_from cc a (push_c_extended_by a cc h))"
  by (induction eps) (simp_all split: option.splits)

lemma link_control_eq:
  "link_control all cc h =
     (if \<not> (p_extends_from (pobj h (c_sourced_from (cobj h cc))) \<noteq> [] \<or>
             p_extended_by (pobj h (c_sourced_from (cobj h cc))) \<noteq> []) \<and>
         find_base all cc h = None
      then Inl TypeError
      else Inr (case chosen all cc h of
                  None \<Rightarrow> h
                | Some a \<Rightarrow> push_c_extends_from cc a (push_c_extended_by a cc h)))"
  by (auto simp: link_control_def chosen_def link_to_ancestor_eq split: option.splits)

lemma link_control_char:
  assumes "link_control all cc h = Inr h'" and "cc < length (control_objs h)"
  shows "same_frame h h'"
    and "x < length (control_objs h) \<Longrightarrow> c_extends_from (cobj h' x) =
           c_extends_from (cobj h x) @ (if x = cc then opt_list (chosen all cc h) else [])"
    and "x < length (control_objs h) \<Longrightarrow> c_extended_by (cobj h' x) =
           c_extended_by (cobj h x) @ (if chosen all cc h = Some x then [cc] else [])"
  using assms
  by (auto simp: link_control_eq same_frame_trans[OF same_frame_push(2) same_frame_push(1)] split: if_splits option.splits)

lemma link_controls_char:
  assumes "link_controls all cs h = Inr h'" and "\<forall>c\<in>set cs. c < length (control_objs h)"
  shows "same_frame h h' \<and>
    (\<forall>x<length (control_objs h).
       c_extends_from (cobj h' x) =
         c_extends_from (cobj h x) @ concat (map (\<lambda>c. if x = c then opt_list (chosen all c h) else []) cs) \<and>
       c_extended_by (cobj h' x) =
         c_extended_by (cobj h x) @ filter (\<lambda>c. chosen all c h = Some x) cs)"
  using assms
proof (induction cs arbitrary: h)
  case Nil
  then show ?case by simp
next
  case (Cons c cs)
  from Cons.prems(1) obtain h1 where h1: "link_control all c h = Inr h1"
    and rest: "link_controls all cs h1 = Inr h'"
    by (auto split: sum.splits)
  have c: "c < length (control_objs h)" using Cons.prems(2) by simp
  note st = link_control_char[OF h1 c]
  have len: "length (control_objs h1) = length (control_objs h)"
    using st(1) by (simp add: same_frame_def)
  have "\<forall>c\<in>set cs. c < length (control_objs h1)" using Cons.prems(2) len by simp
  from Cons.IH[OF rest this] have ih: "same_frame h1 h'"
    "\<And>x. x < length (control_objs h) \<Longrightarrow> c_extends_from (cobj h' x) =
         c_extends_from (cobj h1 x) @ concat (map (\<lambda>c. if x = c then opt_list (chosen all c h1) else []) cs)"
    "\<And>x. x < length (control_objs h) \<Longrightarrow> c_extended_by (cobj h' x) =
         c_extended_by (cobj h1 x) @ filter (\<lambda>c. chosen all c h1 = Some x) cs"
    using len by auto
  have ch: "\<And>c. chosen all c h1 = chosen all c h" using chosen_frame[OF st(1)] by simp
  show ?case
    using same_frame_trans[OF st(1) ih(1)] ih(2,3) st(2,3)
    by (auto simp: ch cong: if_cong)
qed

lemma wrap_profiles_eq:
  "wrap_profiles ps ec h =
     (ec\<lparr>e_contains := e_contains ec @
            [length (profile_objs h)..<length (profile_objs h) + length ps]\<rparr>,
      h\<lparr>profile_objs := profile_objs h @
            map (\<lambda>p. new_profile_context p (Some TheEvaluation)) ps\<rparr>)"
proof (induction ps arbitrary: ec h)
  case Nil
  show ?case by simp
next
  case (Cons p ps)
  have "length (profile_objs h) < length (profile_objs h) + length (p # ps)" by simp
  from upt_conv_Cons[OF this]
  have "[length (profile_objs h)..<length (profile_objs h) + length (p # ps)] =
        length (profile_objs h) # [Suc (length (profile_objs h))..<Suc (length (profile_objs h)) + length ps]"
    by simp
  then show ?case by (simp add: Cons.IH)
qed

lemma push_p_extends_from_frame [simp]:
  "control_objs (push_p_extends_from p v h) = control_objs h"
  "length (profile_objs (push_p_extends_from p v h)) = length (profile_objs h)"
  "p_data (pobj (push_p_extends_from p v h) x) = p_data (pobj h x)"
  "p_sourced_from (pobj (push_p_extends_from p v h) x) = p_sourced_from (pobj h x)"
  "p_contains (pobj (push_p_extends_from p v h) x) = p_contains (pobj h x)"
  "p_extended_by (pobj (push_p_extends_from p v h) x) = p_extended_by (pobj h x)"
  "p_extends_from (pobj (push_p_extends_from p v h) x) =
     p_extends_from (pobj h x) @ (if x = p \<and> p < length (profile_objs h) then [v] else [])"
  by (simp_all add: push_p_extends_from_def nth_upd_self)

lemma push_p_extended_by_frame [simp]:
  "control_objs (push_p_extended_by p v h) = control_objs h"
  "length (profile_objs (push_p_extended_by p v h)) = length (profile_objs h)"
  "p_data (pobj (push_p_extended_by p v h) x) = p_data (pobj h x)"
  "p_sourced_from (pobj (push_p_extended_by p v h) x) = p_sourced_from (pobj h x)"
  "p_contains (pobj (push_p_extended_by p v h) x) = p_contains (pobj h x)"
  "p_extends_from (pobj (push_p_extended_by p v h) x) = p_extends_from (pobj h x)"
  "p_extended_by (pobj (push_p_extended_by p v h) x) =
     p_extended_by (pobj h x) @ (if x = p \<and> p < length (profile_objs h) then [v] else [])"
  by (simp_all add: push_p_extended_by_def nth_upd_self)

lemma same_pframe_refl [simp]: "same_pframe h h"
  by (simp add: same_pframe_def)

lemma same_pframe_trans: "same_pframe h h' \<Longrightarrow> same_pframe h' h'' \<Longrightarrow> same_pframe h h''"
  by (simp add: same_pframe_def)

lemma same_pframe_push [simp]:
  "same_pframe h (push_p_extends_from p v h)" "same_pframe h (push_p_extended_by p v h)"
  by (simp_all add: same_pframe_def)

lemma find_parent_frame:
  "same_pframe h h' \<Longrightarrow> find_parent contains p h' = find_parent contains p h"
  by (simp add: find_parent_def same_pframe_def)

lemma link_profile_eq:
  "link_profile contains profile h =
     (case find_parent contains profile h of
        None \<Rightarrow> h
      | Some parent \<Rightarrow>
          push_p_extended_by profile parent (push_p_extends_from parent profile h))"
  by (simp add: link_profile_def find_parent_def)

lemma link_profile_char:
  assumes "profile < length (profile_objs h)"
  shows "same_pframe h (link_profile contains profile h)"
    and "x < length (profile_objs h) \<Longrightarrow>
           p_extends_from (pobj (link_profile contains profile h) x) =
           p_extends_from (pobj h x) @
             (if find_parent contains profile h = Some x then [profile] else [])"
    and "x < length (profile_objs h) \<Longrightarrow>
           p_extended_by (pobj (link_profile contains profile h) x) =
           p_extended_by (pobj h x) @
             (if x = profile then opt_list (find_parent contains profile h) else [])"
  using assms
  by (auto simp: link_profile_eq same_pframe_trans[OF same_pframe_push(1) same_pframe_push(2)]
      split: option.splits)

lemma link_profiles_char:
  assumes "\<forall>p\<in>set ps. p < length (profile_objs h)"
  shows "same_pframe h (link_profiles contains ps h) \<and>
    (\<forall>x<length (profile_objs h).
       p_extends_from (pobj (link_profiles contains ps h) x) =
         p_extends_from (pobj h x) @ filter (\<lambda>p. find_parent contains p h = Some x) ps \<and>
       p_extended_by (pobj (link_profiles contains ps h) x) =
         p_extended_by (pobj h x) @
           concat (map (\<lambda>p. if x = p then opt_list (find_parent contains p h) else []) ps))"
  using assms
proof (induction ps arbitrary: h)
  case Nil
  then show ?case by simp
next
  case (Cons p ps)
  define h1 where "h1 = link_profile contains p h"
  have p: "p < length (profile_objs h)" using Cons.prems by simp
  note st = link_profile_char[OF p, where contains = contains, folded h1_def]
  have len: "length (profile_objs h1) = length (profile_objs h)"
    using st(1) by (simp add: same_pframe_def)
  have "\<forall>p\<in>set ps. p < length (profile_objs h1)" using Cons.prems len by simp
  from Cons.IH[OF this] have ih: "same_pframe h1 (link_profiles contains ps h1)"
    "\<And>x. x < length (profile_objs h) \<Longrightarrow> p_extends_from (pobj (link_profiles contains ps h1) x) =
         p_extends_from (pobj h1 x) @ filter (\<lambda>p. find_parent contains p h1 = Some x) ps"
    "\<And>x. x < length (profile_objs h) \<Longrightarrow> p_extended_by (pobj (link_profiles contains ps h1) x) =
         p_extended_by (pobj h1 x) @
           concat (map (\<lambda>p. if x = p then opt_list (find_parent contains p h1) else []) ps)"
    using len by auto
  have fp: "\<And>q. find_parent contains q h1 = find_parent contains q h"
    using find_parent_frame[OF st(1)] by simp
  show ?case
    using same_pframe_trans[OF st(1) ih(1)] ih(2,3) st(2,3)
    by (auto simp: fp h1_def[symmetric] cong: if_cong)
qed

lemma same_links_refl [simp]: "same_links h h"
  by (simp add: same_links_def)

lemma same_links_trans: "same_links h h' \<Longrightarrow> same_links h' h'' \<Longrightarrow> same_links h h''"
  by (simp add: same_links_def)

lemma wrap_controls_of_char:
  assumes "wrap_controls_of p all h = (all', h')"
    and "p < length (profile_objs h)" and "owned h" and "unlinked h"
  shows "same_links h h'" and "owned h'" and "unlinked h'"
    and "all' = all @ [length (control_objs h)..<length (control_objs h')]"
    and "map c_data (control_objs h') =
           map c_data (control_objs h) @ controls (p_data (pobj h p))"
proof -
  let ?N = "length (control_objs h)"
  let ?cs = "controls (p_data (pobj h p))"
  have h': "h' = h\<lparr>control_objs := control_objs h @ map (new_control p) ?cs,
                  profile_objs := (profile_objs h)
                     [p := (pobj h p)\<lparr>p_contains := [?N..<?N + length ?cs]\<rparr>]\<rparr>"
    and all': "all' = all @ [?N..<?N + length ?cs]"
    using assms(1) by (auto simp: wrap_controls_of_def Let_def)
  show "same_links h h'"
    by (simp add: h' same_links_def nth_upd_self)
  show "all' = all @ [?N..<length (control_objs h')]"
    by (simp add: h' all')
  show "map c_data (control_objs h') = map c_data (control_objs h) @ ?cs"
    by (simp add: h' new_control_def comp_def)
  show "unlinked h'"
    using assms(4) by (auto simp: h' unlinked_def nth_append new_control_def)
  show "owned h'"
    unfolding owned_def
  proof (intro conjI allI impI ballI)
    fix q c
    assume q: "q < length (profile_objs h')" and c: "c \<in> set (p_contains (pobj h' q))"
    show "c < length (control_objs h')"
    proof (cases "q = p")
      case True
      then show ?thesis using c assms(2) by (simp add: h')
    next
      case False
      then have "c < length (control_objs h)" using c q assms(3) by (auto simp: h' owned_def)
      then show ?thesis by (simp add: h')
    qed
    show "c_sourced_from (cobj h' c) = q"
    proof (cases "q = p")
      case True
      then show ?thesis using c assms(2) by (auto simp: h' nth_append new_control_def)
    next
      case False
      then show ?thesis using c q assms(3) by (auto simp: h' owned_def nth_append)
    qed
  next
    fix c
    assume "c < length (control_objs h')"
    then show "c_sourced_from (cobj h' c) < length (profile_objs h')"
      using assms(2,3) by (auto simp: h' owned_def nth_append new_control_def)
  qed
qed

lemma wrap_controls_char:
  assumes "wrap_controls ps all h = (all', h')"
    and "\<forall>p\<in>set ps. p < length (profile_objs h)" and "owned h" and "unlinked h"
    and "all = [0..<length (control_objs h)]"
  shows "same_links h h' \<and> owned h' \<and> unlinked h' \<and>
         all' = [0..<length (control_objs h')] \<and>
         map c_data (control_objs h') =
           map c_data (control_objs h) @ concat (map (\<lambda>p. controls (p_data (pobj h p))) ps)"
  using assms
proof (induction ps arbitrary: all h)
  case Nil
  then show ?case by auto
next
  case (Cons p ps)
  obtain all1 h1 where w: "wrap_controls_of p all h = (all1, h1)"
    by (cases "wrap_controls_of p all h")
  with Cons.prems(1) have rest: "wrap_controls ps all1 h1 = (all', h')" by simp
  have p: "p < length (profile_objs h)" using Cons.prems(2) by simp
  note st = wrap_controls_of_char[OF w p Cons.prems(3,4)]
  have len: "length (control_objs h) \<le> length (control_objs h1)"
    using arg_cong[OF st(5), of length] by simp
  from len obtain k where k: "length (control_objs h1) = length (control_objs h) + k"
    by (auto simp: le_iff_add)
  have "[0..<length (control_objs h) + k] =
        [0..<length (control_objs h)] @ [length (control_objs h)..<length (control_objs h) + k]"
    by (rule upt_add_eq_append) simp
  then have all1: "all1 = [0..<length (control_objs h1)]"
    using st(4) Cons.prems(5) by (simp only: k)
  have ps: "\<forall>p\<in>set ps. p < length (profile_objs h1)"
    using Cons.prems(2) st(1) by (simp add: same_links_def)
  from Cons.IH[OF rest ps st(2,3) all1]
  have ih: "same_links h1 h'" "owned h'" "unlinked h'" "all' = [0..<length (control_objs h')]"
    "map c_data (control_objs h') =
       map c_data (control_objs h1) @ concat (map (\<lambda>p. controls (p_data (pobj h1 p))) ps)"
    by simp_all
  have pd: "\<And>q. p_data (pobj h1 q) = p_data (pobj h q)"
    using st(1) by (simp add: same_links_def)
  show ?case
    using same_links_trans[OF st(1) ih(1)] ih(2,3,4) ih(5) st(5)
    by (simp add: pd)
qed

lemma concat_if_upt:
  "x < n \<Longrightarrow> concat (map (\<lambda>p. if x = p then f p else []) [0..<n]) = f x"
proof (induction n)
  case 0
  then show ?case by simp
next
  case (Suc n)
  show ?case
  proof (cases "x = n")
    case True
    have "concat (map (\<lambda>p. if x = p then f p else []) [0..<n]) = []"
      using True by (auto simp: concat_eq_Nil_conv)
    then show ?thesis using True by simp
  next
    case False
    then have "x < n" using Suc.prems by simp
    from Suc.IH[OF this] show ?thesis using False by simp
  qed
qed

lemma find_parent_data:
  "(\<And>p. p_data (pobj h' p) = p_data (pobj h p)) \<Longrightarrow>
   find_parent contains p h' = find_parent contains p h"
  by (simp add: find_parent_def)

lemma find_parent_declared:
  assumes "\<And>p. p < length (profiles ev) \<Longrightarrow> p_data (pobj h p) = profiles ev ! p"
    and "i < length (profiles ev)"
  shows "find_parent [0..<length (profiles ev)] i h = declared_parent ev i"
proof -
  have "List.find (\<lambda>p. Str (name (p_data (pobj h p))) = parent_profile (profiles ev ! i))
          [0..<length (profiles ev)] =
        List.find (\<lambda>j. Str (name (profiles ev ! j)) = parent_profile (profiles ev ! i))
          [0..<length (profiles ev)]"
    by (rule find_cong) (simp_all add: assms(1))
  then show ?thesis by (simp add: find_parent_def declared_parent_def assms)
qed

lemma owned_frame: "same_frame h h' \<Longrightarrow> owned h \<Longrightarrow> owned h'"
  by (simp add: same_frame_def owned_def)

lemma contextualizeEvaluation_char:
  assumes "contextualizeEvaluation ev = Inr (ec, h)"
  defines "n \<equiv> length (profiles ev)"
  shows "ec = \<lparr>e_data = ev, e_contains = [0..<n]\<rparr>"
    and "length (profile_objs h) = n"
    and "p < n \<Longrightarrow> p_data (pobj h p) = profiles ev ! p"
    and "p < n \<Longrightarrow> p_sourced_from (pobj h p) = Some TheEvaluation"
    and "p < n \<Longrightarrow> p_extends_from (pobj h p) = filter (\<lambda>i. declared_parent ev i = Some p) [0..<n]"
    and "p < n \<Longrightarrow> p_extended_by (pobj h p) = opt_list (declared_parent ev p)"
    and "owned h"
    and "map c_data (control_objs h) = concat (map controls (profiles ev))"
    and "c < length (control_objs h) \<Longrightarrow>
           c_extends_from (cobj h c) = opt_list (chosen [0..<length (control_objs h)] c h)"
    and "c < length (control_objs h) \<Longrightarrow>
           c_extended_by (cobj h c) =
             filter (\<lambda>x. chosen [0..<length (control_objs h)] x h = Some c)
               [0..<length (control_objs h)]"
proof -
  define h1 where
    "h1 = empty_heap\<lparr>profile_objs := map (\<lambda>p. new_profile_context p (Some TheEvaluation)) (profiles ev)\<rparr>"
  define h2 where "h2 = link_profiles [0..<n] [0..<n] h1"
  obtain all h3 where w: "wrap_controls [0..<n] [] h2 = (all, h3)"
    by (cases "wrap_controls [0..<n] [] h2")
  have wp: "wrap_profiles (profiles ev) \<lparr>e_data = ev, e_contains = []\<rparr> empty_heap =
              (\<lparr>e_data = ev, e_contains = [0..<n]\<rparr>, h1)"
    by (simp add: wrap_profiles_eq h1_def empty_heap_def n_def)
  from assms(1) have ec: "ec = \<lparr>e_data = ev, e_contains = [0..<n]\<rparr>"
    and lc: "link_controls all all h3 = Inr h"
    using w by (auto simp: contextualizeEvaluation_def wp h2_def[symmetric] split: sum.splits)
  show "ec = \<lparr>e_data = ev, e_contains = [0..<n]\<rparr>" by (fact ec)
  have len1: "length (profile_objs h1) = n" by (simp add: h1_def n_def)
  have h1_nth: "\<And>p. p < n \<Longrightarrow> pobj h1 p = new_profile_context (profiles ev ! p) (Some TheEvaluation)"
    by (simp add: h1_def n_def)
  have "\<forall>p\<in>set [0..<n]. p < length (profile_objs h1)" by (simp add: len1)
  from link_profiles_char[OF this, of "[0..<n]", folded h2_def]
  have f12: "same_pframe h1 h2"
    and ef2: "\<And>x. x < n \<Longrightarrow> p_extends_from (pobj h2 x) =
                filter (\<lambda>p. find_parent [0..<n] p h1 = Some x) [0..<n]"
    and eb2: "\<And>x. x < n \<Longrightarrow> p_extended_by (pobj h2 x) = opt_list (find_parent [0..<n] x h1)"
    by (simp_all add: len1 h1_nth new_profile_context_def concat_if_upt)
  have len2: "length (profile_objs h2) = n" using f12 len1 by (simp add: same_pframe_def)
  have co2: "control_objs h2 = []" using f12 by (simp add: same_pframe_def h1_def empty_heap_def)
  have pc2: "\<And>p. p < n \<Longrightarrow> p_contains (pobj h2 p) = []"
    using f12 by (simp add: same_pframe_def h1_nth new_profile_context_def)
  have o2: "owned h2" by (simp add: owned_def co2 len2 pc2)
  have u2: "unlinked h2" by (simp add: unlinked_def co2)
  have "\<forall>p\<in>set [0..<n]. p < length (profile_objs h2)" by (simp add: len2)
  from wrap_controls_char[OF w this o2 u2] 
  have f23: "same_links h2 h3" and o3: "owned h3" and u3: "unlinked h3"
    and all: "all = [0..<length (control_objs h3)]"
    and cd3: "map c_data (control_objs h3) = concat (map (\<lambda>p. controls (p_data (pobj h2 p))) [0..<n])"
    by (simp_all add: co2)
  have "\<forall>c\<in>set all. c < length (control_objs h3)" by (simp add: all)
  from link_controls_char[OF lc this]
  have f34: "same_frame h3 h"
    and ef4: "\<And>x. x < length (control_objs h3) \<Longrightarrow> c_extends_from (cobj h x) =
                opt_list (chosen all x h3)"
    and eb4: "\<And>x. x < length (control_objs h3) \<Longrightarrow> c_extended_by (cobj h x) =
                filter (\<lambda>c. chosen all c h3 = Some x) all"
    using u3 by (simp_all add: unlinked_def all concat_if_upt)
  have po: "profile_objs h = profile_objs h3" and len: "length (control_objs h) = length (control_objs h3)"
    using f34 by (simp_all add: same_frame_def)
  have pd: "\<And>p. p_data (pobj h p) = p_data (pobj h1 p)"
    using f12 f23 by (simp add: po same_pframe_def same_links_def)
  have pd1: "\<And>p. p < n \<Longrightarrow> p_data (pobj h1 p) = profiles ev ! p"
    by (simp add: h1_nth new_profile_context_def)
  have fp: "\<And>i. i < n \<Longrightarrow> find_parent [0..<n] i h1 = declared_parent ev i"
    unfolding n_def by (rule find_parent_declared) (simp_all add: pd1[unfolded n_def])
  show "length (profile_objs h) = n" using f23 len2 by (simp add: po same_links_def)
  show "p < n \<Longrightarrow> p_data (pobj h p) = profiles ev ! p" by (simp add: pd pd1)
  show "p < n \<Longrightarrow> p_sourced_from (pobj h p) = Some TheEvaluation"
    using f12 f23 by (simp add: po same_pframe_def same_links_def h1_nth new_profile_context_def)
  show "p < n \<Longrightarrow> p_extended_by (pobj h p) = opt_list (declared_parent ev p)"
    using f23 by (simp add: po same_links_def eb2 fp)
  show "p < n \<Longrightarrow> p_extends_from (pobj h p) = filter (\<lambda>i. declared_parent ev i = Some p) [0..<n]"
  proof -
    assume p: "p < n"
    have "filter (\<lambda>i. find_parent [0..<n] i h1 = Some p) [0..<n] =
          filter (\<lambda>i. declared_parent ev i = Some p) [0..<n]"
      by (rule filter_cong) (simp_all add: fp)
    then show ?thesis using f23 p by (simp add: po same_links_def ef2)
  qed
  show "owned h" using owned_frame[OF f34 o3] .
  have "concat (map (\<lambda>p. controls (p_data (pobj h2 p))) [0..<n]) =
        concat (map (\<lambda>p. controls (profiles ev ! p)) [0..<n])"
    using f12 by (auto simp: same_pframe_def pd1 intro!: arg_cong[where f = concat])
  also have "\<dots> = concat (map controls (map (\<lambda>p. profiles ev ! p) [0..<n]))"
    by (simp add: comp_def)
  also have "map (\<lambda>p. profiles ev ! p) [0..<n] = profiles ev"
    unfolding n_def by (rule map_nth)
  finally have cc: "concat (map (\<lambda>p. controls (p_data (pobj h2 p))) [0..<n]) =
                    concat (map controls (profiles ev))" .
  have "map c_data (control_objs h) = map c_data (control_objs h3)"
    using f34 by (auto simp: same_frame_def intro: nth_equalityI)
  then show "map c_data (control_objs h) = concat (map controls (profiles ev))"
    by (simp add: cd3 cc)
  have ch: "\<And>a x. chosen a x h3 = chosen a x h"
    using chosen_frame[OF f34] by simp
  show "c < length (control_objs h) \<Longrightarrow>
           c_extends_from (cobj h c) = opt_list (chosen [0..<length (control_objs h)] c h)"
    using ef4[of c] by (simp add: ch len all)
  show "c < length (control_objs h) \<Longrightarrow>
           c_extended_by (cobj h c) =
             filter (\<lambda>x. chosen [0..<length (control_objs h)] x h = Some c)
               [0..<length (control_objs h)]"
    using eb4[of c] by (simp add: ch len all)
qed

section \<open>The example evaluations, computed\<close>

lemma ev_overlay_result:
  "contextualizeEvaluation ev_overlay =
     Inr (\<lparr>e_data = ev_overlay, e_contains = [0, 1]\<rparr>, heap_overlay)"
proof -
  let ?h3 = "heap_overlay\<lparr>control_objs :=
               map (\<lambda>c. c\<lparr>c_extended_by := [], c_extends_from := []\<rparr>) (control_objs heap_overlay)\<rparr>"
  let ?h2 = "\<lparr>profile_objs = map (\<lambda>p. p\<lparr>p_contains := []\<rparr>) (profile_objs heap_overlay),
             control_objs = []\<rparr>"
  let ?h1 = "empty_heap\<lparr>profile_objs :=
               map (\<lambda>p. new_profile_context p (Some TheEvaluation)) (profiles ev_overlay)\<rparr>"
  have s1: "wrap_profiles (profiles ev_overlay) \<lparr>e_data = ev_overlay, e_contains = []\<rparr> empty_heap =
              (\<lparr>e_data = ev_overlay, e_contains = [0, 1]\<rparr>, ?h1)"
    by (simp add: wrap_profiles_eq) (simp add: ev_overlay_def empty_heap_def upt_rec)
  have s2: "link_profiles [0, 1] [0, 1] ?h1 = ?h2"
    by (simp add: ev_overlay_def heap_overlay_def empty_heap_def new_profile_context_def
        link_profile_def push_p_extended_by_def push_p_extends_from_def)
  have s3: "wrap_controls [0, 1] [] ?h2 = ([0, 1], ?h3)"
    by (simp add: ev_overlay_def heap_overlay_def wrap_controls_of_def new_control_def
        upt_rec Let_def)
  have s4: "link_controls [0, 1] [0, 1] ?h3 = Inr heap_overlay"
    by (simp add: ev_overlay_def heap_overlay_def link_control_def find_base_def
        push_c_extends_from_def push_c_extended_by_def)
  show ?thesis
    unfolding contextualizeEvaluation_def s1 prod.case ContextualizedEvaluation.select_convs
      s2 s3 s4 sum.case ..
qed

lemma ev_wrapper_result:
  "contextualizeEvaluation ev_wrapper =
     Inr (\<lparr>e_data = ev_wrapper, e_contains = [0, 1, 2]\<rparr>, heap_wrapper)"
proof -
  let ?h3 = "heap_wrapper\<lparr>control_objs :=
               map (\<lambda>c. c\<lparr>c_extended_by := [], c_extends_from := []\<rparr>) (control_objs heap_wrapper)\<rparr>"
  let ?h2 = "\<lparr>profile_objs = map (\<lambda>p. p\<lparr>p_contains := []\<rparr>) (profile_objs heap_wrapper),
             control_objs = []\<rparr>"
  let ?h1 = "empty_heap\<lparr>profile_objs :=
               map (\<lambda>p. new_profile_context p (Some TheEvaluation)) (profiles ev_wrapper)\<rparr>"
  have s1: "wrap_profiles (profiles ev_wrapper) \<lparr>e_data = ev_wrapper, e_contains = []\<rparr> empty_heap =
              (\<lparr>e_data = ev_wrapper, e_contains = [0, 1, 2]\<rparr>, ?h1)"
    by (simp add: wrap_profiles_eq) (simp add: ev_wrapper_def empty_heap_def upt_rec)
  have s2: "link_profiles [0, 1, 2] [0, 1, 2] ?h1 = ?h2"
    by (simp add: ev_wrapper_def heap_wrapper_def empty_heap_def new_profile_context_def
        link_profile_def push_p_extended_by_def push_p_extends_from_def)
  have s3: "wrap_controls [0, 1, 2] [] ?h2 = ([0, 1, 2, 3], ?h3)"
    by (simp add: ev_wrapper_def heap_wrapper_def wrap_controls_of_def new_control_def
        upt_rec Let_def)
  have s4: "link_controls [0, 1, 2, 3] [0, 1, 2, 3] ?h3 = Inr heap_wrapper"
    by (simp add: ev_wrapper_def heap_wrapper_def link_control_def find_base_def
        push_c_extends_from_def push_c_extended_by_def)
  show ?thesis
    unfolding contextualizeEvaluation_def s1 prod.case ContextualizedEvaluation.select_convs
      s2 s3 s4 sum.case ..
qed

lemma ev_selfparent_result:
  "contextualizeEvaluation ev_selfparent =
     Inr (\<lparr>e_data = ev_selfparent, e_contains = [0]\<rparr>, heap_selfparent)"
proof -
  let ?h3 = "heap_selfparent\<lparr>control_objs :=
               map (\<lambda>c. c\<lparr>c_extended_by := [], c_extends_from := []\<rparr>) (control_objs heap_selfparent)\<rparr>"
  let ?h2 = "\<lparr>profile_objs = map (\<lambda>p. p\<lparr>p_contains := []\<rparr>) (profile_objs heap_selfparent),
             control_objs = []\<rparr>"
  let ?h1 = "empty_heap\<lparr>profile_objs :=
               map (\<lambda>p. new_profile_context p (Some TheEvaluation)) (profiles ev_selfparent)\<rparr>"
  have s1: "wrap_profiles (profiles ev_selfparent) \<lparr>e_data = ev_selfparent, e_contains = []\<rparr> empty_heap =
              (\<lparr>e_data = ev_selfparent, e_contains = [0]\<rparr>, ?h1)"
    by (simp add: wrap_profiles_eq) (simp add: ev_selfparent_def empty_heap_def upt_rec)
  have s2: "link_profiles [0] [0] ?h1 = ?h2"
    by (simp add: ev_selfparent_def heap_selfparent_def empty_heap_def new_profile_context_def
        link_profile_def push_p_extended_by_def push_p_extends_from_def)
  have s3: "wrap_controls [0] [] ?h2 = ([0], ?h3)"
    by (simp add: ev_selfparent_def heap_selfparent_def wrap_controls_of_def new_control_def
        upt_rec Let_def)
  have s4: "link_controls [0] [0] ?h3 = Inr heap_selfparent"
    by (simp add: ev_selfparent_def heap_selfparent_def link_control_def find_base_def
        push_c_extends_from_def push_c_extended_by_def)
  show ?thesis
    unfolding contextualizeEvaluation_def s1 prod.case ContextualizedEvaluation.select_convs
      s2 s3 s4 sum.case ..
qed

lemma ev_blank_root_result:
  "contextualizeEvaluation ev_blank_root =
     Inr (\<lparr>e_data = ev_blank_root, e_contains = [0]\<rparr>, heap_blank_root)"
proof -
  let ?h3 = "heap_blank_root\<lparr>control_objs :=
               map (\<lambda>c. c\<lparr>c_extended_by := [], c_extends_from := []\<rparr>) (control_objs heap_blank_root)\<rparr>"
  let ?h2 = "\<lparr>profile_objs = map (\<lambda>p. p\<lparr>p_contains := []\<rparr>) (profile_objs heap_blank_root),
             control_objs = []\<rparr>"
  let ?h1 = "empty_heap\<lparr>profile_objs :=
               map (\<lambda>p. new_profile_context p (Some TheEvaluation)) (profiles ev_blank_root)\<rparr>"
  have s1: "wrap_profiles (profiles ev_blank_root) \<lparr>e_data = ev_blank_root, e_contains = []\<rparr> empty_heap =
              (\<lparr>e_data = ev_blank_root, e_contains = [0]\<rparr>, ?h1)"
    by (simp add: wrap_profiles_eq) (simp add: ev_blank_root_def empty_heap_def upt_rec)
  have s2: "link_profiles [0] [0] ?h1 = ?h2"
    by (simp add: ev_blank_root_def heap_blank_root_def empty_heap_def new_profile_context_def
        link_profile_def push_p_extended_by_def push_p_extends_from_def)
  have s3: "wrap_controls [0] [] ?h2 = ([0], ?h3)"
    by (simp add: ev_blank_root_def heap_blank_root_def wrap_controls_of_def new_control_def
        upt_rec Let_def)
  have s4: "link_controls [0] [0] ?h3 = Inr heap_blank_root"
    by (simp add: ev_blank_root_def heap_blank_root_def link_control_def find_base_def
        push_c_extends_from_def push_c_extended_by_def)
  show ?thesis
    unfolding contextualizeEvaluation_def s1 prod.case ContextualizedEvaluation.select_convs
      s2 s3 s4 sum.case ..
qed

section \<open>Properties of the derived views\<close>

lemma root_fixed:
  assumes "root h cc = Some r"
  shows "c_extends_from (cobj h r) = [] \<and> root h r = Some r"
proof (rule root.raw_induct[where P = "\<lambda>h c r. c_extends_from (cobj h r) = [] \<and> root h r = Some r",
      OF _ assms])
  fix root' :: "heap \<Rightarrow> nat \<Rightarrow> nat option" and h cur y
  assume IH: "\<And>h' c y. root' h' c = Some y \<Longrightarrow>
                c_extends_from (cobj h' y) = [] \<and> root h' y = Some y"
    and eq: "(case c_extends_from (cobj h cur) of [] \<Rightarrow> Some cur | a # x \<Rightarrow> root' h a) = Some y"
  show "c_extends_from (cobj h y) = [] \<and> root h y = Some y"
  proof (cases "c_extends_from (cobj h cur)")
    case Nil
    with eq have "y = cur" by simp
    with Nil show ?thesis by (subst root.simps) simp
  next
    case (Cons a rest)
    with eq have "root' h a = Some y" by simp
    from IH[OF this] show ?thesis .
  qed
qed

lemma root_within_root: "root_within k h c = Some r \<Longrightarrow> root h c = Some r"
proof (induction k arbitrary: c)
  case 0
  then show ?case by (subst root.simps) (auto split: list.splits)
next
  case (Suc k)
  then show ?case by (subst root.simps) (auto split: list.splits)
qed

text \<open>
  Claim C9. Whenever \<^verbatim>\<open>cc.root\<close> returns a control \<open>r\<close>, the root of \<open>r\<close> is \<open>r\<close>
  itself, and \<open>r\<close> has an empty \<^verbatim>\<open>extends_from\<close>: root is idempotent.
\<close>

theorem root_idempotent:
  assumes "root h cc = Some r"
  shows "root h r = Some r \<and> c_extends_from (cobj h r) = []"
  using root_fixed[OF assms] by simp

theorem root_idempotent_witness:
  "contextualizeEvaluation ev_wrapper =
     Inr (\<lparr>e_data = ev_wrapper, e_contains = [0, 1, 2]\<rparr>, heap_wrapper) \<and>
   root heap_wrapper 0 = Some 2 \<and> root heap_wrapper 2 = Some 2 \<and>
   c_extends_from (cobj heap_wrapper 2) = []"
proof -
  have r: "root heap_wrapper 0 = Some 2"
    by (simp add: heap_wrapper_def root.simps)
  from root_idempotent[OF r] r ev_wrapper_result show ?thesis by simp
qed

text \<open>
  Claim C6. With \<open>r\<close> the root of \<open>cc\<close>, \<^verbatim>\<open>cc.is_redundant\<close> is true exactly when the
  raw code of \<open>cc\<close> is absent or blank, or \<open>cc\<close> has an ancestor and its raw code equals
  the raw code of \<open>r\<close>.
\<close>

theorem is_redundant_iff:
  assumes "root h cc = Some r"
  shows "is_redundant h cc =
           Some (blank (ctrl_code (c_data (cobj h cc))) \<or>
                 (c_extends_from (cobj h cc) \<noteq> [] \<and>
                  ctrl_code (c_data (cobj h cc)) = ctrl_code (c_data (cobj h r))))"
  using assms by (simp add: is_redundant_def blank_def)

theorem is_redundant_iff_witness:
  "root heap_wrapper 0 = Some 2 \<and>
   is_redundant heap_wrapper 0 = Some True \<and>
   c_extends_from (cobj heap_wrapper 0) = [2] \<and>
   ctrl_code (c_data (cobj heap_wrapper 0)) = ctrl_code (c_data (cobj heap_wrapper 2)) \<and>
   root heap_wrapper 1 = Some 1 \<and>
   is_redundant heap_wrapper 1 = Some False"
proof -
  have r0: "root heap_wrapper 0 = Some 2" and r1: "root heap_wrapper 1 = Some 1"
    by (simp_all add: heap_wrapper_def root.simps)
  have nb: "\<not> blank (Str ''describe y'')"
    by (simp add: blank_def trim_def is_white_space_def)
  from is_redundant_iff[OF r0] is_redundant_iff[OF r1] r0 r1 nb show ?thesis
    by (simp add: heap_wrapper_def)
qed

text \<open>
  Claim C2. A redundant control is meant to collapse to its first ancestor: its
  \<^verbatim>\<open>full_code\<close> is the \<^verbatim>\<open>full_code\<close> of \<^verbatim>\<open>extends_from[0]\<close>. The code does not keep this
  for a control with blank code and no ancestor. For the only control of \<open>ev_blank_root\<close>,
  \<^verbatim>\<open>is_redundant\<close> is true although the control is its own root, \<^verbatim>\<open>extends_from[0]\<close>
  is \<^verbatim>\<open>undefined\<close>, so reading its \<^verbatim>\<open>full_code\<close> throws, and the \<^verbatim>\<open>full_code\<close> of the
  control is its own banner.
\<close>

theorem redundant_root_has_no_ancestor:
  "contextualizeEvaluation ev_blank_root =
     Inr (\<lparr>e_data = ev_blank_root, e_contains = [0]\<rparr>, heap_blank_root) \<and>
   c_extends_from (cobj heap_blank_root 0) = [] \<and>
   root heap_blank_root 0 = Some 0 \<and>
   is_redundant heap_blank_root 0 = Some True \<and>
   first_ancestor_full_code heap_blank_root 0 = Inl TypeError \<and>
   full_code heap_blank_root 0 =
     Some (replicate 57 CHR ''='' @ [CHR 0x0A] @ ''# Profile name: P'' @ [CHR 0x0A] @
           replicate 57 CHR ''='')"
proof -
  have ef: "c_extends_from (cobj heap_blank_root 0) = []"
    by (simp add: heap_blank_root_def)
  have rt: "root heap_blank_root 0 = Some 0"
    by (simp add: heap_blank_root_def root.simps)
  have red: "is_redundant heap_blank_root 0 = Some True"
    by (simp add: is_redundant_def heap_blank_root_def)
  have fc: "full_code heap_blank_root 0 =
     Some (replicate 57 CHR ''='' @ [CHR 0x0A] @ ''# Profile name: P'' @ [CHR 0x0A] @
           replicate 57 CHR ''='')"
    by code_simp
  from ev_blank_root_result ef rt red fc show ?thesis
    by (simp add: first_ancestor_full_code_def)
qed

section \<open>The linker never fails\<close>

lemma find_base_member:
  assumes "cc \<in> set all"
  shows "\<exists>b. find_base all cc h = Some b"
proof -
  let ?same = "filter (\<lambda>c. ctrl_id (c_data (cobj h c)) = ctrl_id (c_data (cobj h cc))) all"
  have "cc \<in> set ?same" using assms by simp
  then have "?same \<noteq> []" by (metis empty_iff list.set(1))
  then show ?thesis
    by (auto simp: find_base_def Let_def split: option.splits list.splits)
qed

lemma link_control_ok:
  assumes "cc \<in> set all"
  shows "\<exists>h'. link_control all cc h = Inr h'"
  using find_base_member[OF assms, of h] by (auto simp: link_control_eq)

lemma link_controls_ok:
  assumes "set cs \<subseteq> set all"
  shows "\<exists>h'. link_controls all cs h = Inr h'"
  using assms
proof (induction cs arbitrary: h)
  case Nil
  show ?case by simp
next
  case (Cons c cs)
  then obtain h1 where "link_control all c h = Inr h1"
    using link_control_ok[of c all h] by auto
  with Cons show ?case by simp
qed

lemma contextualizeEvaluation_total:
  "\<exists>ec h. contextualizeEvaluation ev = Inr (ec, h)"
proof -
  obtain ec h1 where w: "wrap_profiles (profiles ev) \<lparr>e_data = ev, e_contains = []\<rparr> empty_heap = (ec, h1)"
    by (cases "wrap_profiles (profiles ev) \<lparr>e_data = ev, e_contains = []\<rparr> empty_heap")
  obtain all h3 where c: "wrap_controls (e_contains ec) []
      (link_profiles (e_contains ec) (e_contains ec) h1) = (all, h3)"
    by (cases "wrap_controls (e_contains ec) [] (link_profiles (e_contains ec) (e_contains ec) h1)")
  obtain h4 where "link_controls all all h3 = Inr h4"
    using link_controls_ok[of all all h3] by auto
  then show ?thesis by (simp add: contextualizeEvaluation_def w c)
qed

lemma find_SomeD: "List.find P xs = Some x \<Longrightarrow> x \<in> set xs \<and> P x"
  by (induction xs) (auto split: if_splits)

lemma first_match_None_iff:
  "first_match eps cc h = None \<longleftrightarrow>
     (\<forall>e\<in>set eps. \<forall>a\<in>set (p_contains (pobj h e)).
        ctrl_id (c_data (cobj h a)) \<noteq> ctrl_id (c_data (cobj h cc)))"
  by (induction eps) (auto simp: find_None_iff split: option.splits dest: find_SomeD)

lemma declared_parent_less:
  "declared_parent ev i = Some j \<Longrightarrow> j < length (profiles ev)"
  by (auto simp: declared_parent_def find_Some_iff split: if_splits)

lemma declared_parent_unmatched:
  assumes "parent_profile (profiles ev ! p) = Str nm"
    and "\<forall>q\<in>set (profiles ev). name q \<noteq> nm"
  shows "declared_parent ev p = None"
  using assms by (auto simp: declared_parent_def find_None_iff)

lemma add_controls_eq:
  assumes "p < length (profile_objs h)"
  shows "add_controls cs p h =
     \<lparr>profile_objs = (profile_objs h)
        [p := (pobj h p)\<lparr>p_contains := p_contains (pobj h p) @
           [length (control_objs h)..<length (control_objs h) + length cs]\<rparr>],
      control_objs = control_objs h @ map (new_control p) cs\<rparr>"
  using assms
proof (induction cs arbitrary: h)
  case Nil
  then show ?case by simp
next
  case (Cons c cs)
  have u: "[length (control_objs h)..<Suc (length (control_objs h) + length cs)] =
        length (control_objs h) # [Suc (length (control_objs h))..<Suc (length (control_objs h) + length cs)]"
    by (rule upt_conv_Cons) simp
  show ?case
    using Cons.prems by (simp add: Cons.IH u del: upt_Suc)
qed

lemma contextualizeProfile_eq:
  "contextualizeProfile q =
     (0, \<lparr>profile_objs = [(new_profile_context q None)\<lparr>p_contains := [0..<length (controls q)]\<rparr>],
          control_objs = map (new_control 0) (controls q)\<rparr>)"
  by (simp add: contextualizeProfile_def add_controls_eq new_profile_context_def)

section \<open>Claims about the linker\<close>

text \<open>
  Claim C7. \<^verbatim>\<open>contextualizeProfile\<close> returns a profile wrapper with
  \<^verbatim>\<open>sourced_from = null\<close> that contains one wrapper per control of the profile, and every
  contained control has empty \<^verbatim>\<open>extends_from\<close> and \<^verbatim>\<open>extended_by\<close>, whatever ids the
  controls have.
\<close>

theorem contextualizeProfile_unlinked:
  assumes "contextualizeProfile q = (p, h)"
  shows "p_data (pobj h p) = q \<and> p_sourced_from (pobj h p) = None \<and>
         p_extends_from (pobj h p) = [] \<and> p_extended_by (pobj h p) = [] \<and>
         p_contains (pobj h p) = [0..<length (controls q)] \<and>
         map c_data (control_objs h) = controls q \<and>
         (\<forall>c\<in>set (p_contains (pobj h p)).
            c_sourced_from (cobj h c) = p \<and>
            c_extends_from (cobj h c) = [] \<and> c_extended_by (cobj h c) = [])"
  using assms
  by (auto simp: contextualizeProfile_eq new_profile_context_def new_control_def comp_def)

theorem contextualizeProfile_unlinked_witness:
  "contextualizeProfile profile_dup = (0, heap_dup) \<and>
   ctrl_id (c_data (cobj heap_dup 0)) = ctrl_id (c_data (cobj heap_dup 1)) \<and>
   p_sourced_from (pobj heap_dup 0) = None \<and>
   p_contains (pobj heap_dup 0) = [0, 1] \<and>
   c_extends_from (cobj heap_dup 0) = [] \<and> c_extended_by (cobj heap_dup 0) = [] \<and>
   c_extends_from (cobj heap_dup 1) = [] \<and> c_extended_by (cobj heap_dup 1) = []"
proof -
  have ph: "contextualizeProfile profile_dup = (0, heap_dup)"
    by (simp add: contextualizeProfile_eq profile_dup_def heap_dup_def new_profile_context_def
        new_control_def upt_rec)
  from contextualizeProfile_unlinked[OF ph] ph show ?thesis
    by (simp add: heap_dup_def profile_dup_def)
qed

text \<open>
  Claim C10. After \<^verbatim>\<open>contextualizeEvaluation\<close> there is one control wrapper per raw control,
  and the \<^verbatim>\<open>extends_from\<close> list of every control wrapper has at most one element.
\<close>

theorem extends_from_at_most_one:
  assumes "contextualizeEvaluation ev = Inr (ec, h)"
  shows "length (control_objs h) = length (concat (map controls (profiles ev))) \<and>
         (\<forall>c<length (control_objs h). length (c_extends_from (cobj h c)) \<le> 1)"
proof -
  have "length (map c_data (control_objs h)) = length (concat (map controls (profiles ev)))"
    using contextualizeEvaluation_char(8)[OF assms] by simp
  moreover have "length (c_extends_from (cobj h c)) \<le> 1" if "c < length (control_objs h)" for c
    using contextualizeEvaluation_char(9)[OF assms that]
    by (cases "chosen [0..<length (control_objs h)] c h") simp_all
  ultimately show ?thesis by simp
qed

theorem extends_from_at_most_one_witness:
  "contextualizeEvaluation ev_wrapper =
     Inr (\<lparr>e_data = ev_wrapper, e_contains = [0, 1, 2]\<rparr>, heap_wrapper) \<and>
   length (control_objs heap_wrapper) = 4 \<and>
   length (c_extends_from (cobj heap_wrapper 0)) \<le> 1 \<and>
   length (c_extends_from (cobj heap_wrapper 1)) \<le> 1 \<and>
   length (c_extends_from (cobj heap_wrapper 2)) \<le> 1 \<and>
   length (c_extends_from (cobj heap_wrapper 3)) \<le> 1"
  using extends_from_at_most_one[OF ev_wrapper_result] ev_wrapper_result
  by (simp add: heap_wrapper_def)

text \<open>
  Claim C8. \<^verbatim>\<open>contextualizeEvaluation\<close> returns for every evaluation. A profile whose
  declared parent name is the name of no profile of the evaluation gets no profile-level
  edge: its \<^verbatim>\<open>extended_by\<close> stays empty and it enters no \<^verbatim>\<open>extends_from\<close>. A control whose
  owning profile extends other profiles, none of which contains a control with the same id,
  ends with an empty \<^verbatim>\<open>extends_from\<close>.
\<close>

theorem never_raises:
  "(\<exists>ec h. contextualizeEvaluation ev = Inr (ec, h)) \<and>
   (\<forall>ec h. contextualizeEvaluation ev = Inr (ec, h) \<longrightarrow>
      (\<forall>p<length (profiles ev). \<forall>nm.
         parent_profile (profiles ev ! p) = Str nm \<and> (\<forall>q\<in>set (profiles ev). name q \<noteq> nm) \<longrightarrow>
         p_extended_by (pobj h p) = [] \<and>
         (\<forall>q<length (profiles ev). p \<notin> set (p_extends_from (pobj h q)))) \<and>
      (\<forall>c<length (control_objs h).
         p_extends_from (pobj h (c_sourced_from (cobj h c))) \<noteq> [] \<and>
         (\<forall>e\<in>set (p_extends_from (pobj h (c_sourced_from (cobj h c)))).
            \<forall>a\<in>set (p_contains (pobj h e)).
              ctrl_id (c_data (cobj h a)) \<noteq> ctrl_id (c_data (cobj h c))) \<longrightarrow>
         c_extends_from (cobj h c) = []))"
proof -
  have profile_part: "p_extended_by (pobj h p) = [] \<and>
         (\<forall>q<length (profiles ev). p \<notin> set (p_extends_from (pobj h q)))"
    if r: "contextualizeEvaluation ev = Inr (ec, h)" and p: "p < length (profiles ev)"
      and u: "parent_profile (profiles ev ! p) = Str nm" "\<forall>q\<in>set (profiles ev). name q \<noteq> nm"
    for ec h p nm
  proof -
    have dp: "declared_parent ev p = None"
      using u by (rule declared_parent_unmatched)
    have "p_extended_by (pobj h p) = []"
      using contextualizeEvaluation_char(6)[OF r p] dp by simp
    moreover have "\<forall>q<length (profiles ev). p \<notin> set (p_extends_from (pobj h q))"
      using contextualizeEvaluation_char(5)[OF r] dp by simp
    ultimately show ?thesis by simp
  qed
  have control_part: "c_extends_from (cobj h c) = []"
    if r: "contextualizeEvaluation ev = Inr (ec, h)" and c: "c < length (control_objs h)"
      and n: "p_extends_from (pobj h (c_sourced_from (cobj h c))) \<noteq> []"
        "\<forall>e\<in>set (p_extends_from (pobj h (c_sourced_from (cobj h c)))).
            \<forall>a\<in>set (p_contains (pobj h e)).
              ctrl_id (c_data (cobj h a)) \<noteq> ctrl_id (c_data (cobj h c))"
    for ec h c
  proof -
    have "chosen [0..<length (control_objs h)] c h = None"
      using n by (simp add: chosen_def first_match_None_iff)
    then show ?thesis
      using contextualizeEvaluation_char(9)[OF r c] by simp
  qed
  show ?thesis
    using contextualizeEvaluation_total[of ev] profile_part control_part by blast
qed

theorem never_raises_witness:
  "contextualizeEvaluation ev_wrapper =
     Inr (\<lparr>e_data = ev_wrapper, e_contains = [0, 1, 2]\<rparr>, heap_wrapper) \<and>
   parent_profile (profiles ev_wrapper ! 0) = Str ''Missing'' \<and>
   p_extended_by (pobj heap_wrapper 0) = [] \<and>
   0 \<notin> set (p_extends_from (pobj heap_wrapper 0)) \<and>
   0 \<notin> set (p_extends_from (pobj heap_wrapper 1)) \<and>
   0 \<notin> set (p_extends_from (pobj heap_wrapper 2)) \<and>
   p_extends_from (pobj heap_wrapper (c_sourced_from (cobj heap_wrapper 1))) = [1, 2] \<and>
   c_extends_from (cobj heap_wrapper 1) = []"
proof -
  from never_raises[of ev_wrapper] ev_wrapper_result
  have t1: "\<forall>p<length (profiles ev_wrapper). \<forall>nm.
         parent_profile (profiles ev_wrapper ! p) = Str nm \<and>
         (\<forall>q\<in>set (profiles ev_wrapper). name q \<noteq> nm) \<longrightarrow>
         p_extended_by (pobj heap_wrapper p) = [] \<and>
         (\<forall>q<length (profiles ev_wrapper). p \<notin> set (p_extends_from (pobj heap_wrapper q)))"
    and t2: "\<forall>c<length (control_objs heap_wrapper).
         p_extends_from (pobj heap_wrapper (c_sourced_from (cobj heap_wrapper c))) \<noteq> [] \<and>
         (\<forall>e\<in>set (p_extends_from (pobj heap_wrapper (c_sourced_from (cobj heap_wrapper c)))).
            \<forall>a\<in>set (p_contains (pobj heap_wrapper e)).
              ctrl_id (c_data (cobj heap_wrapper a)) \<noteq> ctrl_id (c_data (cobj heap_wrapper c))) \<longrightarrow>
         c_extends_from (cobj heap_wrapper c) = []"
    by blast+
  have a: "parent_profile (profiles ev_wrapper ! 0) = Str ''Missing'' \<and>
           (\<forall>q\<in>set (profiles ev_wrapper). name q \<noteq> ''Missing'')"
    by (simp add: ev_wrapper_def)
  have l: "(0::nat) < length (profiles ev_wrapper)" "length (profiles ev_wrapper) = 3"
    by (simp_all add: ev_wrapper_def)
  from t1 l(1) a have e1: "p_extended_by (pobj heap_wrapper 0) = []"
    and e2: "\<forall>q<length (profiles ev_wrapper). 0 \<notin> set (p_extends_from (pobj heap_wrapper q))"
    by blast+
  have b: "p_extends_from (pobj heap_wrapper (c_sourced_from (cobj heap_wrapper 1))) \<noteq> [] \<and>
         (\<forall>e\<in>set (p_extends_from (pobj heap_wrapper (c_sourced_from (cobj heap_wrapper 1)))).
            \<forall>a\<in>set (p_contains (pobj heap_wrapper e)).
              ctrl_id (c_data (cobj heap_wrapper a)) \<noteq> ctrl_id (c_data (cobj heap_wrapper 1)))"
    by (simp add: heap_wrapper_def)
  have "1 < length (control_objs heap_wrapper)" by (simp add: heap_wrapper_def)
  with t2 b have e3: "c_extends_from (cobj heap_wrapper 1) = []" by blast
  from e2 have e2': "0 \<notin> set (p_extends_from (pobj heap_wrapper 0))"
    "0 \<notin> set (p_extends_from (pobj heap_wrapper 1))"
    "0 \<notin> set (p_extends_from (pobj heap_wrapper 2))"
    by (simp_all add: l(2))
  have s: "p_extends_from (pobj heap_wrapper (c_sourced_from (cobj heap_wrapper 1))) = [1, 2]"
    by (simp add: heap_wrapper_def)
  from ev_wrapper_result a e1 e2' e3 s show ?thesis by simp
qed

lemma extended_profiles_distinct:
  assumes "contextualizeEvaluation ev = Inr (ec, h)" and "p < length (profiles ev)"
  shows "distinct (p_extends_from (pobj h p))"
    and "\<forall>e\<in>set (p_extends_from (pobj h p)). e < length (profiles ev) \<and> declared_parent ev e = Some p"
  using contextualizeEvaluation_char(5)[OF assms] by simp_all

lemma control_owner:
  assumes "contextualizeEvaluation ev = Inr (ec, h)"
  shows "c < length (control_objs h) \<Longrightarrow> c_sourced_from (cobj h c) < length (profiles ev)"
    and "p < length (profiles ev) \<Longrightarrow> a \<in> set (p_contains (pobj h p)) \<Longrightarrow>
           a < length (control_objs h) \<and> c_sourced_from (cobj h a) = p"
  using contextualizeEvaluation_char(7)[OF assms] contextualizeEvaluation_char(2)[OF assms]
  by (auto simp: owned_def)

text \<open>
  Claim C5. Let the owning profile of control \<open>cc\<close> have the profile-level
  \<^verbatim>\<open>extends_from\<close> list \<open>[a, b]\<close>, let \<open>m\<close> be the first control of \<open>a\<close> with the id of
  \<open>cc\<close>, and let \<open>b\<close> contain a control with that id too. Then \<open>cc\<close> extends exactly
  \<open>m\<close>, \<open>m\<close> is extended by \<open>cc\<close>, and no control of \<open>b\<close> is linked with \<open>cc\<close> in either
  direction.
\<close>

theorem case_a_first_profile_wins:
  assumes "contextualizeEvaluation ev = Inr (ec, h)"
    and "cc < length (control_objs h)"
    and "p_extends_from (pobj h (c_sourced_from (cobj h cc))) = [a, b]"
    and "List.find (\<lambda>c. ctrl_id (c_data (cobj h c)) = ctrl_id (c_data (cobj h cc)))
           (p_contains (pobj h a)) = Some m"
    and "m' \<in> set (p_contains (pobj h b))"
    and "ctrl_id (c_data (cobj h m')) = ctrl_id (c_data (cobj h cc))"
  shows "c_extends_from (cobj h cc) = [m] \<and>
         cc \<in> set (c_extended_by (cobj h m)) \<and>
         (\<forall>x\<in>set (p_contains (pobj h b)).
            x \<notin> set (c_extends_from (cobj h cc)) \<and> cc \<notin> set (c_extended_by (cobj h x)))"
proof -
  let ?N = "length (control_objs h)"
  let ?w = "c_sourced_from (cobj h cc)"
  note r = assms(1)
  have w: "?w < length (profiles ev)" using control_owner(1)[OF r assms(2)] .
  have ab: "a \<noteq> b" "a < length (profiles ev)" "b < length (profiles ev)"
    using extended_profiles_distinct[OF r w] assms(3) by simp_all
  have ch: "chosen [0..<?N] cc h = Some m"
    using assms(3,4) by (simp add: chosen_def)
  have ef: "c_extends_from (cobj h cc) = [m]"
    using contextualizeEvaluation_char(9)[OF r assms(2)] ch by simp
  have "m \<in> set (p_contains (pobj h a))" using find_SomeD[OF assms(4)] by simp
  from control_owner(2)[OF r ab(2) this]
  have m: "m < ?N" "c_sourced_from (cobj h m) = a" by simp_all
  have eb: "cc \<in> set (c_extended_by (cobj h m))"
    using contextualizeEvaluation_char(10)[OF r m(1)] ch assms(2) by simp
  have "x \<notin> set (c_extends_from (cobj h cc)) \<and> cc \<notin> set (c_extended_by (cobj h x))"
    if x: "x \<in> set (p_contains (pobj h b))" for x
  proof -
    from control_owner(2)[OF r ab(3) x]
    have xb: "x < ?N" "c_sourced_from (cobj h x) = b" by simp_all
    have ne: "x \<noteq> m" using xb(2) m(2) ab(1) by auto
    have "cc \<notin> set (c_extended_by (cobj h x))"
      using contextualizeEvaluation_char(10)[OF r xb(1)] ch ne by simp
    with ne ef show ?thesis by simp
  qed
  with ef eb show ?thesis by simp
qed

theorem case_a_first_profile_wins_witness:
  "contextualizeEvaluation ev_wrapper =
     Inr (\<lparr>e_data = ev_wrapper, e_contains = [0, 1, 2]\<rparr>, heap_wrapper) \<and>
   p_extends_from (pobj heap_wrapper (c_sourced_from (cobj heap_wrapper 0))) = [1, 2] \<and>
   p_contains (pobj heap_wrapper 1) = [2] \<and> p_contains (pobj heap_wrapper 2) = [3] \<and>
   ctrl_id (c_data (cobj heap_wrapper 2)) = ctrl_id (c_data (cobj heap_wrapper 0)) \<and>
   ctrl_id (c_data (cobj heap_wrapper 3)) = ctrl_id (c_data (cobj heap_wrapper 0)) \<and>
   c_extends_from (cobj heap_wrapper 0) = [2] \<and>
   0 \<in> set (c_extended_by (cobj heap_wrapper 2)) \<and>
   3 \<notin> set (c_extends_from (cobj heap_wrapper 0)) \<and>
   0 \<notin> set (c_extended_by (cobj heap_wrapper 3))"
proof -
  have c: "0 < length (control_objs heap_wrapper)"
    and e: "p_extends_from (pobj heap_wrapper (c_sourced_from (cobj heap_wrapper 0))) = [1, 2]"
    and f: "List.find (\<lambda>c. ctrl_id (c_data (cobj heap_wrapper c)) =
                          ctrl_id (c_data (cobj heap_wrapper 0)))
             (p_contains (pobj heap_wrapper 1)) = Some 2"
    and g: "3 \<in> set (p_contains (pobj heap_wrapper 2))"
    and i: "ctrl_id (c_data (cobj heap_wrapper 3)) = ctrl_id (c_data (cobj heap_wrapper 0))"
    by (simp_all add: heap_wrapper_def)
  from case_a_first_profile_wins[OF ev_wrapper_result c e f g i] ev_wrapper_result e i
  show ?thesis by (simp add: heap_wrapper_def)
qed

lemma two_peers:
  fixes xa xb :: Control and na nb :: string
  defines "ev \<equiv> \<lparr>profiles =
      [\<lparr>name = na, parent_profile = Undefined, controls = [xa]\<rparr>,
       \<lparr>name = nb, parent_profile = Undefined, controls = [xb]\<rparr>]\<rparr>"
  assumes id: "ctrl_id xa = ctrl_id xb"
    and r: "contextualizeEvaluation ev = Inr (ec, h)"
  shows "length (control_objs h) = 2" "c_data (cobj h 0) = xa" "c_data (cobj h 1) = xb"
    and "\<not> segments_populated xa \<and> segments_populated xb \<Longrightarrow>
           c_extends_from (cobj h 0) = [1] \<and> c_extended_by (cobj h 1) = [0] \<and>
           c_extends_from (cobj h 1) = [] \<and> c_extended_by (cobj h 0) = []"
    and "segments_populated xa \<or> \<not> segments_populated xb \<Longrightarrow>
           c_extends_from (cobj h 1) = [0] \<and> c_extended_by (cobj h 0) = [1] \<and>
           c_extends_from (cobj h 0) = [] \<and> c_extended_by (cobj h 1) = []"
proof -
  have n: "length (profiles ev) = 2" by (simp add: ev_def)
  have dp: "declared_parent ev p = None" if "p < 2" for p
    using that by (auto simp: declared_parent_def ev_def less_Suc_eq numeral_2_eq_2)
  have cd: "map c_data (control_objs h) = [xa, xb]"
    using contextualizeEvaluation_char(8)[OF r] by (simp add: ev_def)
  have "length (map c_data (control_objs h)) = length [xa, xb]"
    by (simp only: cd)
  then show len: "length (control_objs h) = 2" by simp
  show d0: "c_data (cobj h 0) = xa" and d1: "c_data (cobj h 1) = xb"
    using nth_map[of 0 "control_objs h" c_data] nth_map[of 1 "control_objs h" c_data] cd len
    by simp_all
  have own: "c_sourced_from (cobj h c) < 2" if "c < 2" for c
    using control_owner(1)[OF r, of c] that len n by simp
  have noedge: "p_extends_from (pobj h p) = [] \<and> p_extended_by (pobj h p) = []" if "p < 2" for p
    using contextualizeEvaluation_char(5,6)[OF r, of p] that n dp by simp
  have upt2: "[0..<2] = [0, Suc 0]" by (simp add: upt_rec numeral_2_eq_2)
  have ch: "chosen [0..<2] c h =
              (case find_base [0, Suc 0] c h of None \<Rightarrow> None
               | Some b \<Rightarrow> if c = b then None else Some b)" if "c < 2" for c
    using noedge[OF own[OF that]] by (simp add: chosen_def upt2)
  have ef: "c_extends_from (cobj h c) = opt_list (chosen [0..<2] c h)"
    and eb: "c_extended_by (cobj h c) = filter (\<lambda>x. chosen [0..<2] x h = Some c) [0, Suc 0]"
    if "c < 2" for c
    using contextualizeEvaluation_char(9,10)[OF r, of c] that len by (simp_all add: upt2)
  {
    assume a: "\<not> segments_populated xa \<and> segments_populated xb"
    have fb: "find_base [0, Suc 0] c h = Some 1" if "c < 2" for c
      using that a id d0 d1 by (auto simp: find_base_def less_Suc_eq numeral_2_eq_2)
    have c0: "chosen [0..<2] 0 h = Some 1" and c1: "chosen [0..<2] (Suc 0) h = None"
      using ch[of 0] ch[of 1] fb[of 0] fb[of 1] by simp_all
    show "c_extends_from (cobj h 0) = [1] \<and> c_extended_by (cobj h 1) = [0] \<and>
           c_extends_from (cobj h 1) = [] \<and> c_extended_by (cobj h 0) = []"
      using ef[of 0] ef[of 1] eb[of 0] eb[of 1] c0 c1 by simp
  }
  {
    assume a: "segments_populated xa \<or> \<not> segments_populated xb"
    have fb: "find_base [0, Suc 0] c h = Some 0" if "c < 2" for c
      using that a id d0 d1 by (auto simp: find_base_def less_Suc_eq numeral_2_eq_2)
    have c0: "chosen [0..<2] 0 h = None" and c1: "chosen [0..<2] (Suc 0) h = Some 0"
      using ch[of 0] ch[of 1] fb[of 0] fb[of 1] by simp_all
    show "c_extends_from (cobj h 1) = [0] \<and> c_extended_by (cobj h 0) = [1] \<and>
           c_extends_from (cobj h 0) = [] \<and> c_extended_by (cobj h 1) = []"
      using ef[of 0] ef[of 1] eb[of 0] eb[of 1] c0 c1 by simp
  }
qed

text \<open>
  Claim C4. Two profiles without a declared parent, each with one control of the same id
  \<open>x\<close>; the control of \<open>P1\<close> has no results, the control of \<open>P2\<close> has some. Whichever
  profile comes first in the evaluation, the control of \<open>P1\<close> extends the control of
  \<open>P2\<close>, and the control of \<open>P2\<close> is extended by the control of \<open>P1\<close>.
\<close>

theorem populated_peer_is_base:
  assumes "rs \<noteq> []"
  shows
    "(\<exists>ec h. contextualizeEvaluation \<lparr>profiles =
         [\<lparr>name = n1, parent_profile = Undefined,
           controls = [\<lparr>ctrl_id = x, ctrl_code = code1, ctrl_results = []\<rparr>]\<rparr>,
          \<lparr>name = n2, parent_profile = Undefined,
           controls = [\<lparr>ctrl_id = x, ctrl_code = code2, ctrl_results = rs\<rparr>]\<rparr>]\<rparr> = Inr (ec, h) \<and>
       c_data (cobj h 0) = \<lparr>ctrl_id = x, ctrl_code = code1, ctrl_results = []\<rparr> \<and>
       c_data (cobj h 1) = \<lparr>ctrl_id = x, ctrl_code = code2, ctrl_results = rs\<rparr> \<and>
       c_extends_from (cobj h 0) = [1] \<and> c_extended_by (cobj h 1) = [0]) \<and>
     (\<exists>ec h. contextualizeEvaluation \<lparr>profiles =
         [\<lparr>name = n2, parent_profile = Undefined,
           controls = [\<lparr>ctrl_id = x, ctrl_code = code2, ctrl_results = rs\<rparr>]\<rparr>,
          \<lparr>name = n1, parent_profile = Undefined,
           controls = [\<lparr>ctrl_id = x, ctrl_code = code1, ctrl_results = []\<rparr>]\<rparr>]\<rparr> = Inr (ec, h) \<and>
       c_data (cobj h 0) = \<lparr>ctrl_id = x, ctrl_code = code2, ctrl_results = rs\<rparr> \<and>
       c_data (cobj h 1) = \<lparr>ctrl_id = x, ctrl_code = code1, ctrl_results = []\<rparr> \<and>
       c_extends_from (cobj h 1) = [0] \<and> c_extended_by (cobj h 0) = [1])"
proof
  let ?x1 = "\<lparr>ctrl_id = x, ctrl_code = code1, ctrl_results = []\<rparr>"
  let ?x2 = "\<lparr>ctrl_id = x, ctrl_code = code2, ctrl_results = rs\<rparr>"
  have p: "\<not> segments_populated ?x1 \<and> segments_populated ?x2"
    using assms by (simp add: segments_populated_def)
  have i: "ctrl_id ?x1 = ctrl_id ?x2" "ctrl_id ?x2 = ctrl_id ?x1" by simp_all
  let ?ev = "\<lparr>profiles = [\<lparr>name = n1, parent_profile = Undefined, controls = [?x1]\<rparr>,
                          \<lparr>name = n2, parent_profile = Undefined, controls = [?x2]\<rparr>]\<rparr>"
  obtain ec h where r: "contextualizeEvaluation ?ev = Inr (ec, h)"
    using contextualizeEvaluation_total[of ?ev] by blast
  from two_peers(2,3,4)[OF i(1) r] p r
  show "\<exists>ec h. contextualizeEvaluation ?ev = Inr (ec, h) \<and>
       c_data (cobj h 0) = ?x1 \<and> c_data (cobj h 1) = ?x2 \<and>
       c_extends_from (cobj h 0) = [1] \<and> c_extended_by (cobj h 1) = [0]"
    by blast
  let ?ev' = "\<lparr>profiles = [\<lparr>name = n2, parent_profile = Undefined, controls = [?x2]\<rparr>,
                           \<lparr>name = n1, parent_profile = Undefined, controls = [?x1]\<rparr>]\<rparr>"
  obtain ec' h' where r': "contextualizeEvaluation ?ev' = Inr (ec', h')"
    using contextualizeEvaluation_total[of ?ev'] by blast
  from two_peers(2,3,5)[OF i(2) r'] p r'
  show "\<exists>ec h. contextualizeEvaluation ?ev' = Inr (ec, h) \<and>
       c_data (cobj h 0) = ?x2 \<and> c_data (cobj h 1) = ?x1 \<and>
       c_extends_from (cobj h 1) = [0] \<and> c_extended_by (cobj h 0) = [1]"
    by blast
qed

theorem populated_peer_is_base_witness:
  "[Result ''passed''] \<noteq> [] \<and>
   (\<exists>ec h. contextualizeEvaluation \<lparr>profiles =
         [\<lparr>name = ''P1'', parent_profile = Undefined,
           controls = [\<lparr>ctrl_id = ''x'', ctrl_code = Str ''a'', ctrl_results = []\<rparr>]\<rparr>,
          \<lparr>name = ''P2'', parent_profile = Undefined,
           controls = [\<lparr>ctrl_id = ''x'', ctrl_code = Str ''b'',
                        ctrl_results = [Result ''passed'']\<rparr>]\<rparr>]\<rparr> = Inr (ec, h) \<and>
       c_extends_from (cobj h 0) = [1] \<and> c_extended_by (cobj h 1) = [0]) \<and>
   (\<exists>ec h. contextualizeEvaluation \<lparr>profiles =
         [\<lparr>name = ''P2'', parent_profile = Undefined,
           controls = [\<lparr>ctrl_id = ''x'', ctrl_code = Str ''b'',
                        ctrl_results = [Result ''passed'']\<rparr>]\<rparr>,
          \<lparr>name = ''P1'', parent_profile = Undefined,
           controls = [\<lparr>ctrl_id = ''x'', ctrl_code = Str ''a'', ctrl_results = []\<rparr>]\<rparr>]\<rparr> = Inr (ec, h) \<and>
       c_extends_from (cobj h 1) = [0] \<and> c_extended_by (cobj h 0) = [1])"
proof -
  have ne: "[Result ''passed''] \<noteq> []" by simp
  from populated_peer_is_base[OF ne, of "''P1''" "''x''" "Str ''a''" "''P2''" "Str ''b''"] ne
  show ?thesis by blast
qed

text \<open>
  Claim C1, as the code has it. In the overlay scenario (control 0 is \<open>c1\<close> of \<open>A\<close>,
  control 1 is \<open>c1\<close> of \<open>B\<close>) the profile named as parent is the one that extends: \<open>A\<close>
  extends \<open>B\<close>, and \<open>c1\<close> of \<open>A\<close> extends \<open>c1\<close> of \<open>B\<close>, which has no ancestor. \<open>c1\<close>
  of \<open>B\<close> is redundant, \<open>c1\<close> of \<open>A\<close> is not, and the full code of \<open>c1\<close> of \<open>A\<close> is its
  own banner and code followed by the full code of \<open>c1\<close> of \<open>B\<close>.
\<close>

theorem overlay_scenario:
  "contextualizeEvaluation ev_overlay =
     Inr (\<lparr>e_data = ev_overlay, e_contains = [0, 1]\<rparr>, heap_overlay) \<and>
   name (p_data (pobj heap_overlay 0)) = ''A'' \<and> name (p_data (pobj heap_overlay 1)) = ''B'' \<and>
   p_contains (pobj heap_overlay 0) = [0] \<and> p_contains (pobj heap_overlay 1) = [1] \<and>
   p_extends_from (pobj heap_overlay 0) = [1] \<and> p_extended_by (pobj heap_overlay 1) = [0] \<and>
   c_extends_from (cobj heap_overlay 0) = [1] \<and> c_extended_by (cobj heap_overlay 1) = [0] \<and>
   c_extends_from (cobj heap_overlay 1) = [] \<and>
   is_redundant heap_overlay 1 = Some True \<and>
   is_redundant heap_overlay 0 = Some False \<and>
   full_code heap_overlay 1 =
     Some (replicate 57 CHR ''='' @ [CHR 0x0A] @ ''# Profile name: B'' @ [CHR 0x0A] @
           replicate 57 CHR ''='') \<and>
   full_code heap_overlay 0 =
     Some (replicate 57 CHR ''='' @ [CHR 0x0A] @ ''# Profile name: A'' @ [CHR 0x0A] @
           replicate 57 CHR ''='' @ [CHR 0x0A, CHR 0x0A] @ ''show cmd'' @ [CHR 0x0A, CHR 0x0A] @
           replicate 57 CHR ''='' @ [CHR 0x0A] @ ''# Profile name: B'' @ [CHR 0x0A] @
           replicate 57 CHR ''='')"
proof -
  have links: "name (p_data (pobj heap_overlay 0)) = ''A'' \<and> name (p_data (pobj heap_overlay 1)) = ''B'' \<and>
   p_contains (pobj heap_overlay 0) = [0] \<and> p_contains (pobj heap_overlay 1) = [1] \<and>
   p_extends_from (pobj heap_overlay 0) = [1] \<and> p_extended_by (pobj heap_overlay 1) = [0] \<and>
   c_extends_from (cobj heap_overlay 0) = [1] \<and> c_extended_by (cobj heap_overlay 1) = [0] \<and>
   c_extends_from (cobj heap_overlay 1) = []"
    by (simp add: heap_overlay_def ev_overlay_def)
  have r1: "is_redundant heap_overlay 1 = Some True"
    by (simp add: is_redundant_def heap_overlay_def)
  have r0: "is_redundant heap_overlay 0 = Some False"
    by (simp add: is_redundant_def heap_overlay_def root.simps trim_def is_white_space_def)
  have f1: "full_code heap_overlay 1 =
     Some (replicate 57 CHR ''='' @ [CHR 0x0A] @ ''# Profile name: B'' @ [CHR 0x0A] @
           replicate 57 CHR ''='')"
    by code_simp
  have f0: "full_code heap_overlay 0 =
     Some (replicate 57 CHR ''='' @ [CHR 0x0A] @ ''# Profile name: A'' @ [CHR 0x0A] @
           replicate 57 CHR ''='' @ [CHR 0x0A, CHR 0x0A] @ ''show cmd'' @ [CHR 0x0A, CHR 0x0A] @
           replicate 57 CHR ''='' @ [CHR 0x0A] @ ''# Profile name: B'' @ [CHR 0x0A] @
           replicate 57 CHR ''='')"
    by code_simp
  from ev_overlay_result links r1 r0 f1 f0 show ?thesis by (simp only: simp_thms)
qed

theorem overlay_scenario_counterexample:
  "contextualizeEvaluation ev_overlay =
     Inr (\<lparr>e_data = ev_overlay, e_contains = [0, 1]\<rparr>, heap_overlay) \<and>
   name (p_data (pobj heap_overlay 0)) = ''A'' \<and> name (p_data (pobj heap_overlay 1)) = ''B'' \<and>
   p_contains (pobj heap_overlay 0) = [0] \<and> p_contains (pobj heap_overlay 1) = [1] \<and>
   c_extends_from (cobj heap_overlay 1) \<noteq> [0] \<and>
   full_code heap_overlay 1 \<noteq> full_code heap_overlay 0"
proof -
  have links: "name (p_data (pobj heap_overlay 0)) = ''A'' \<and> name (p_data (pobj heap_overlay 1)) = ''B'' \<and>
   p_contains (pobj heap_overlay 0) = [0] \<and> p_contains (pobj heap_overlay 1) = [1] \<and>
   c_extends_from (cobj heap_overlay 1) \<noteq> [0]"
    by (simp add: heap_overlay_def ev_overlay_def)
  have f: "full_code heap_overlay 1 \<noteq> full_code heap_overlay 0"
    by code_simp
  from ev_overlay_result links f show ?thesis by (simp only: simp_thms)
qed

section \<open>Termination of root\<close>

declare parent_depth.simps [simp del]

lemma parent_depth_step:
  assumes "parent_depth k ev i = Some d" and "declared_parent ev i = Some j"
  shows "\<exists>k' d'. k = Suc k' \<and> d = Suc d' \<and> parent_depth k' ev j = Some d'"
  using assms by (subst (asm) parent_depth.simps) (auto split: nat.splits)

lemma parent_depth_mono:
  "parent_depth k ev i = Some d \<Longrightarrow> parent_depth (Suc k) ev i = Some d"
proof (induction k arbitrary: i d)
  case 0
  then show ?case
    by (subst parent_depth.simps, subst (asm) parent_depth.simps) (auto split: option.splits)
next
  case (Suc k)
  show ?case
  proof (cases "declared_parent ev i")
    case None
    with Suc.prems show ?thesis
      by (subst parent_depth.simps, subst (asm) parent_depth.simps) simp
  next
    case (Some j)
    from parent_depth_step[OF Suc.prems Some] obtain d' where
      d: "d = Suc d'" "parent_depth k ev j = Some d'" by auto
    from Suc.IH[OF d(2)] have "parent_depth (Suc k) ev j = Some d'" .
    then show ?thesis using Some d(1) by (subst parent_depth.simps) simp
  qed
qed

lemma parent_depth_bound: "parent_depth k ev i = Some d \<Longrightarrow> d \<le> k"
proof (induction k arbitrary: i d)
  case 0
  then show ?case by (subst (asm) parent_depth.simps) (auto split: option.splits)
next
  case (Suc k)
  show ?case
  proof (cases "declared_parent ev i")
    case None
    with Suc.prems show ?thesis by (subst (asm) parent_depth.simps) simp
  next
    case (Some j)
    from parent_depth_step[OF Suc.prems Some] obtain d' where
      d: "d = Suc d'" "parent_depth k ev j = Some d'" by auto
    from Suc.IH[OF d(2)] d(1) show ?thesis by simp
  qed
qed

lemma depth_decreases:
  assumes "no_parent_cycle ev" and "e < length (profiles ev)" and "declared_parent ev e = Some w"
  shows "\<exists>dw de. parent_depth (length (profiles ev)) ev w = Some dw \<and>
                 parent_depth (length (profiles ev)) ev e = Some de \<and>
                 dw < de \<and> de \<le> length (profiles ev)"
proof -
  from assms(1,2) have "parent_depth (length (profiles ev)) ev e \<noteq> None"
    by (simp add: no_parent_cycle_def list_all_iff)
  then obtain de where de: "parent_depth (length (profiles ev)) ev e = Some de"
    by blast
  from parent_depth_step[OF de assms(3)] obtain k' d' where
    k: "length (profiles ev) = Suc k'" "de = Suc d'" "parent_depth k' ev w = Some d'" by auto
  from parent_depth_mono[OF k(3)] have "parent_depth (length (profiles ev)) ev w = Some d'"
    by (simp add: k(1))
  with de k(2) parent_depth_bound[OF de] show ?thesis by simp
qed

lemma first_match_SomeD:
  "first_match eps cc h = Some a \<Longrightarrow> \<exists>e\<in>set eps. a \<in> set (p_contains (pobj h e))"
  by (induction eps) (auto split: option.splits dest: find_SomeD)

lemma find_base_SomeD:
  assumes "find_base all cc h = Some b"
  shows "b \<in> set all" and "ctrl_id (c_data (cobj h b)) = ctrl_id (c_data (cobj h cc))"
proof -
  let ?same = "filter (\<lambda>c. ctrl_id (c_data (cobj h c)) = ctrl_id (c_data (cobj h cc))) all"
  have "b \<in> set ?same"
  proof (cases "List.find (\<lambda>c. segments_populated (c_data (cobj h c))) ?same")
    case None
    with assms obtain tl where "?same = b # tl"
      by (auto simp: find_base_def Let_def split: list.splits)
    then show ?thesis by (metis list.set_intros(1))
  next
    case (Some x)
    with assms have "x = b" by (simp add: find_base_def Let_def)
    with find_SomeD[OF Some] show ?thesis by simp
  qed
  then show "b \<in> set all" and "ctrl_id (c_data (cobj h b)) = ctrl_id (c_data (cobj h cc))"
    by simp_all
qed

lemma find_base_same_id:
  "ctrl_id (c_data (cobj h a)) = ctrl_id (c_data (cobj h c)) \<Longrightarrow>
   find_base all a h = find_base all c h"
  by (simp add: find_base_def)

lemma edge_rank:
  assumes npc: "no_parent_cycle ev" and r: "contextualizeEvaluation ev = Inr (ec, h)"
    and c: "c < length (control_objs h)" and e: "c_extends_from (cobj h c) = a # rest"
  shows "a < length (control_objs h) \<and> link_rank ev h a < link_rank ev h c"
proof -
  let ?N = "length (control_objs h)"
  let ?n = "length (profiles ev)"
  let ?w = "c_sourced_from (cobj h c)"
  have ch: "chosen [0..<?N] c h = Some a"
    using contextualizeEvaluation_char(9)[OF r c] e
    by (cases "chosen [0..<?N] c h") simp_all
  have w: "?w < ?n" using control_owner(1)[OF r c] .
  show ?thesis
  proof (cases "edged h ?w")
    case True
    then have "first_match (p_extends_from (pobj h ?w)) c h = Some a"
      using ch by (simp add: chosen_def edged_def)
    from first_match_SomeD[OF this] obtain x where
      x: "x \<in> set (p_extends_from (pobj h ?w))" "a \<in> set (p_contains (pobj h x))" by auto
    from extended_profiles_distinct(2)[OF r w] x(1)
    have xn: "x < ?n" and dp: "declared_parent ev x = Some ?w" by auto
    from control_owner(2)[OF r xn x(2)] have a: "a < ?N" "c_sourced_from (cobj h a) = x" by simp_all
    have "p_extended_by (pobj h x) = [?w]"
      using contextualizeEvaluation_char(6)[OF r xn] dp by simp
    then have ea: "edged h (c_sourced_from (cobj h a))" by (simp add: edged_def a(2))
    from depth_decreases[OF npc xn dp] obtain dw de where
      d: "parent_depth ?n ev ?w = Some dw" "parent_depth ?n ev x = Some de" "dw < de" "de \<le> ?n"
      by auto
    have "link_rank ev h a < link_rank ev h c"
      using True ea d by (simp add: link_rank_def a(2))
    with a(1) show ?thesis by simp
  next
    case False
    then obtain b where b: "find_base [0..<?N] c h = Some b" and bc: "c \<noteq> b" and ba: "a = b"
      using ch by (auto simp: chosen_def edged_def split: option.splits if_splits)
    from find_base_SomeD[OF b] have a: "a < ?N"
      and ida: "ctrl_id (c_data (cobj h a)) = ctrl_id (c_data (cobj h c))"
      using ba by simp_all
    have rc: "link_rank ev h c = Suc ?n" using False e by (simp add: link_rank_def)
    have "link_rank ev h a < Suc ?n"
    proof (cases "edged h (c_sourced_from (cobj h a))")
      case True
      then show ?thesis by (simp add: link_rank_def)
    next
      case nea: False
      have "find_base [0..<?N] a h = Some a"
        using find_base_same_id[OF ida] b ba by simp
      then have "chosen [0..<?N] a h = None"
        using nea by (simp add: chosen_def edged_def)
      then have "c_extends_from (cobj h a) = []"
        using contextualizeEvaluation_char(9)[OF r a] by simp
      then show ?thesis using nea by (simp add: link_rank_def)
    qed
    with a rc show ?thesis by simp
  qed
qed

lemma root_within_rank:
  fixes m :: "nat \<Rightarrow> nat"
  assumes edge: "\<And>c a rest. c < N \<Longrightarrow> c_extends_from (cobj h c) = a # rest \<Longrightarrow>
                   a < N \<and> m a < m c"
  shows "c < N \<Longrightarrow> card {x. x < N \<and> m x < m c} \<le> k \<Longrightarrow> \<exists>r. root_within k h c = Some r"
proof (induction k arbitrary: c)
  case 0
  show ?case
  proof (cases "c_extends_from (cobj h c)")
    case Nil
    then show ?thesis by simp
  next
    case (Cons a rest)
    from edge[OF "0.prems"(1) Cons] have "a \<in> {x. x < N \<and> m x < (m c :: nat)}" by simp
    moreover have "finite {x. x < N \<and> m x < m c}" by simp
    ultimately have "card {x. x < N \<and> m x < m c} \<noteq> 0" by (metis card_0_eq empty_iff)
    with "0.prems"(2) show ?thesis by simp
  qed
next
  case (Suc k)
  show ?case
  proof (cases "c_extends_from (cobj h c)")
    case Nil
    then show ?thesis by simp
  next
    case (Cons a rest)
    from edge[OF Suc.prems(1) Cons] have a: "a < N" "m a < m c" by simp_all
    have "{x. x < N \<and> m x < m a} \<subset> {x. x < N \<and> m x < m c}"
      using a by auto
    moreover have "finite {x. x < N \<and> m x < m c}" by simp
    ultimately have "card {x. x < N \<and> m x < m a} < card {x. x < N \<and> m x < m c}"
      by (rule psubset_card_mono[rotated])
    with Suc.prems(2) have "card {x. x < N \<and> m x < m a} \<le> k" by simp
    from Suc.IH[OF a(1) this] show ?thesis using Cons by simp
  qed
qed

lemma rank_card:
  fixes m :: "nat \<Rightarrow> nat"
  assumes "c < N"
  shows "card {x. x < N \<and> m x < m c} \<le> N"
proof -
  have "{x. x < N \<and> m x < m c} \<subseteq> {..<N}" by auto
  from card_mono[OF _ this] show ?thesis by simp
qed

lemma root_self_loop:
  assumes "c_extends_from (cobj h c) = c # rest"
  shows "root h c = None"
proof -
  have "\<not> (h' = h \<and> c' = c)" if "root h' c' = Some y" for h' c' y
    using that
  proof (rule root.raw_induct[where P = "\<lambda>h' c' y. \<not> (h' = h \<and> c' = c)", rotated])
    fix root' :: "heap \<Rightarrow> nat \<Rightarrow> nat option" and h0 cur y0
    assume IH: "\<And>h1 c1 y1. root' h1 c1 = Some y1 \<Longrightarrow> \<not> (h1 = h \<and> c1 = c)"
      and eq: "(case c_extends_from (cobj h0 cur) of [] \<Rightarrow> Some cur | a # x \<Rightarrow> root' h0 a) = Some y0"
    show "\<not> (h0 = h \<and> cur = c)"
    proof
      assume "h0 = h \<and> cur = c"
      with eq assms have "root' h c = Some y0" by simp
      from IH[OF this] show False by simp
    qed
  qed
  then show ?thesis by (cases "root h c") auto
qed

text \<open>
  Claim C3, as the code has it. For an evaluation without a parent cycle among its
  profiles, the chains of first ancestors contain no cycle, no control is linked to itself,
  and \<^verbatim>\<open>root\<close> returns for every control within as many iterations as there are controls.
  (With a parent cycle the chains can be cyclic; the profile that names itself as its
  parent is the smallest case.)
\<close>

theorem root_terminates:
  assumes "no_parent_cycle ev" and "contextualizeEvaluation ev = Inr (ec, h)"
  shows "length (control_objs h) = length (concat (map controls (profiles ev))) \<and>
         acyclic (first_ancestor h) \<and>
         (\<forall>c<length (control_objs h).
            c \<notin> set (c_extends_from (cobj h c)) \<and>
            (\<exists>r. root_within (length (control_objs h)) h c = Some r \<and> root h c = Some r))"
proof -
  let ?N = "length (control_objs h)"
  note edge = edge_rank[OF assms]
  have "acyclic (first_ancestor h)"
  proof (rule acyclicI_order[where f = "link_rank ev h"])
    fix c a
    assume "(c, a) \<in> first_ancestor h"
    then show "link_rank ev h a < link_rank ev h c"
      using edge by (auto simp: first_ancestor_def)
  qed
  moreover have "c \<notin> set (c_extends_from (cobj h c)) \<and>
            (\<exists>r. root_within ?N h c = Some r \<and> root h c = Some r)"
    if c: "c < ?N" for c
  proof -
    have "c \<notin> set (c_extends_from (cobj h c))"
    proof (cases "chosen [0..<?N] c h")
      case None
      then show ?thesis using contextualizeEvaluation_char(9)[OF assms(2) c] by simp
    next
      case (Some a)
      then have "c_extends_from (cobj h c) = [a]"
        using contextualizeEvaluation_char(9)[OF assms(2) c] by simp
      with edge[OF c this] show ?thesis by auto
    qed
    moreover have "\<exists>r. root_within ?N h c = Some r"
    proof (rule root_within_rank[where N = ?N and m = "link_rank ev h"])
      show "a < ?N \<and> link_rank ev h a < link_rank ev h c'"
        if "c' < ?N" "c_extends_from (cobj h c') = a # rest" for c' a rest
        using edge[OF that] .
      show "c < ?N" by (fact c)
      show "card {x. x < ?N \<and> link_rank ev h x < link_rank ev h c} \<le> ?N"
        by (rule rank_card[OF c])
    qed
    then obtain r where "root_within ?N h c = Some r" by blast
    ultimately show ?thesis using root_within_root by blast
  qed
  moreover have "length (control_objs h) = length (concat (map controls (profiles ev)))"
  proof -
    have "length (map c_data (control_objs h)) = length (concat (map controls (profiles ev)))"
      by (simp only: contextualizeEvaluation_char(8)[OF assms(2)])
    then show ?thesis by simp
  qed
  ultimately show ?thesis by blast
qed

theorem root_terminates_witness:
  "no_parent_cycle ev_wrapper \<and>
   contextualizeEvaluation ev_wrapper =
     Inr (\<lparr>e_data = ev_wrapper, e_contains = [0, 1, 2]\<rparr>, heap_wrapper) \<and>
   length (control_objs heap_wrapper) = 4 \<and>
   acyclic (first_ancestor heap_wrapper) \<and>
   0 \<notin> set (c_extends_from (cobj heap_wrapper 0)) \<and>
   root_within 4 heap_wrapper 0 = Some 2 \<and> root heap_wrapper 0 = Some 2"
proof -
  have npc: "no_parent_cycle ev_wrapper"
    by code_simp
  have len: "length (control_objs heap_wrapper) = 4" by (simp add: heap_wrapper_def)
  have r0: "root heap_wrapper 0 = Some 2" by (simp add: heap_wrapper_def root.simps)
  from root_terminates[OF npc ev_wrapper_result]
  have ac: "acyclic (first_ancestor heap_wrapper)"
    and t: "\<forall>c<length (control_objs heap_wrapper).
            c \<notin> set (c_extends_from (cobj heap_wrapper c)) \<and>
            (\<exists>r. root_within (length (control_objs heap_wrapper)) heap_wrapper c = Some r \<and>
                 root heap_wrapper c = Some r)"
    by blast+
  from t len have "0 \<notin> set (c_extends_from (cobj heap_wrapper 0)) \<and>
            (\<exists>r. root_within 4 heap_wrapper 0 = Some r \<and> root heap_wrapper 0 = Some r)"
    by (metis zero_less_numeral)
  with r0 have "0 \<notin> set (c_extends_from (cobj heap_wrapper 0))"
    "root_within 4 heap_wrapper 0 = Some 2" by auto
  with npc ev_wrapper_result len ac r0 show ?thesis by (simp only: simp_thms)
qed

theorem root_terminates_counterexample:
  "contextualizeEvaluation ev_selfparent =
     Inr (\<lparr>e_data = ev_selfparent, e_contains = [0]\<rparr>, heap_selfparent) \<and>
   length (control_objs heap_selfparent) = 1 \<and>
   c_extends_from (cobj heap_selfparent 0) = [0] \<and>
   (0, 0) \<in> first_ancestor heap_selfparent \<and>
   root_within 1 heap_selfparent 0 = None \<and>
   root heap_selfparent 0 = None"
proof -
  have e: "c_extends_from (cobj heap_selfparent 0) = [0]"
    and len: "length (control_objs heap_selfparent) = 1"
    by (simp_all add: heap_selfparent_def)
  have fa: "(0, 0) \<in> first_ancestor heap_selfparent"
    by (simp add: first_ancestor_def e len)
  have rw: "root_within 1 heap_selfparent 0 = None"
    by (simp add: e)
  from ev_selfparent_result len e fa rw root_self_loop[OF e] show ?thesis
    by (simp only: simp_thms)
qed

end
